theory Spec2Isabelle
  imports Main
begin

section \<open>Layer enablement and LayerFilter (namespace util)\<close>

text \<open>
  The arguments of the templates are types. A type is either a plain layer type,
  identified by its name, or a \<open>LayerPack<...>\<close>, which is \<open>std::tuple<...>\<close> of types.
\<close>

datatype 'n ty = Layer 'n | LayerPack "'n ty list"

text \<open>
  \<open>Strata<Layers...>\<close> is the type carrying the ordered layer list; \<open>PrependLayer\<close> puts a
  new layer at the front.
\<close>

datatype 'n Strata = Strata "'n ty list"

fun layers :: "'n Strata \<Rightarrow> 'n ty list" where
  "layers (Strata ls) = ls"

fun PrependLayer :: "'n ty \<Rightarrow> 'n Strata \<Rightarrow> 'n Strata" where
  "PrependLayer NewLayer (Strata Layers) = Strata (NewLayer # Layers)"

text \<open>
  \<open>LayerTraits<T>\<close>: the primary template sets \<open>compiletimeEnabled = false\<close>; user code may
  give an explicit specialization for a type. The specializations present in a program
  are a partial map from types to the flag they declare.
\<close>

type_synonym 'n traits = "'n ty \<rightharpoonup> bool"

definition compiletimeEnabled :: "'n traits \<Rightarrow> 'n ty \<Rightarrow> bool" where
  "compiletimeEnabled specs T = (case specs T of None \<Rightarrow> False | Some b \<Rightarrow> b)"

definition IsLayerEnabled :: "'n traits \<Rightarrow> 'n ty \<Rightarrow> bool" where
  "IsLayerEnabled specs L = compiletimeEnabled specs L"

text \<open>
  \<open>detail::EnabledLayers\<close>: the primary template (empty pack) yields \<open>Strata<>\<close>; the partial
  specialization for \<open>FirstLayer, RestLayers...\<close> prepends the first layer to the filtered
  rest when its flag is set and drops it otherwise.
\<close>

fun EnabledLayers :: "'n traits \<Rightarrow> 'n ty list \<Rightarrow> 'n Strata" where
  "EnabledLayers specs [] = Strata []"
| "EnabledLayers specs (FirstLayer # RestLayers) =
     (if compiletimeEnabled specs FirstLayer
      then PrependLayer FirstLayer (EnabledLayers specs RestLayers)
      else EnabledLayers specs RestLayers)"

text \<open>
  \<open>detail::LayerFilterImpl\<close>: the specialization for a single \<open>LayerPack\<close> argument filters
  the members of the pack; the primary template filters the argument list itself.
\<close>

fun LayerFilterImpl :: "'n traits \<Rightarrow> 'n ty list \<Rightarrow> 'n Strata" where
  "LayerFilterImpl specs [LayerPack Layers] = EnabledLayers specs Layers"
| "LayerFilterImpl specs Layers = EnabledLayers specs Layers"

definition LayerFilter :: "'n traits \<Rightarrow> 'n ty list \<Rightarrow> 'n Strata" where
  "LayerFilter specs Layers = LayerFilterImpl specs Layers"

text \<open>The utilities \<open>CountEnabledLayers\<close> and \<open>AnyLayersEnabled\<close> (fold expressions).\<close>

definition CountEnabledLayersImpl :: "'n traits \<Rightarrow> 'n ty list \<Rightarrow> nat" where
  "CountEnabledLayersImpl specs Layers =
     foldl (\<lambda>acc L. acc + (if IsLayerEnabled specs L then 1 else 0)) 0 Layers"

definition AnyLayersEnabledImpl :: "'n traits \<Rightarrow> 'n ty list \<Rightarrow> bool" where
  "AnyLayersEnabledImpl specs Layers = foldl (\<lambda>acc L. acc \<or> IsLayerEnabled specs L) False Layers"


section \<open>The interception pipeline (struct Strata)\<close>

text \<open>
  A call either returns or leaves by an exception. Hooks return \<open>void\<close>, so their value
  type is \<open>unit\<close>.
\<close>

datatype ('e, 'v) res = Ret 'v | Throw 'e

text \<open>
  The calls \<open>Exec\<close> makes are recorded in the order they happen. A hook call records the
  layer, the branch of the \<open>if constexpr\<close> chain that made it and the values passed:
  the argument pack and, for the after-hook of a value-returning operation, the result
  object (\<open>None\<close> for a void operation, whose after-hooks are passed the arguments only).
\<close>

datatype resolution = Specific | Generic

datatype ('n, 'a, 'r) call =
    BeforeCall 'n resolution 'a
  | CoreCall 'a
  | AfterCall 'n resolution "'r option" 'a

text \<open>
  The state \<open>Exec\<close> runs in: the argument pack \<open>args...\<close> (forwarding references, so a hook
  or the function taking a reference or moving from an rvalue may change it), everything
  else the called code can reach, and the record of calls.
\<close>

record ('n, 'a, 'r, 's) machine =
  args :: 'a
  user :: 's
  calls :: "('n, 'a, 'r) call list"

type_synonym ('a, 's, 'e) proc = "'a \<Rightarrow> 's \<Rightarrow> ('e, unit) res \<times> 'a \<times> 's"
type_synonym ('a, 'r, 's, 'e) func = "'a \<Rightarrow> 's \<Rightarrow> ('e, 'r) res \<times> 'a \<times> 's"
type_synonym ('a, 'r, 's, 'e) after_fn = "'r \<Rightarrow> 'a \<Rightarrow> 's \<Rightarrow> ('e, unit) res \<times> 'r \<times> 'a \<times> 's"

text \<open>
  A layer as one instantiation of \<open>Exec<Op>\<close> sees it. The build-time constants
  \<open>has_specific_before_impl<Layer, Op>::value\<close>, \<open>has_generic_before_impl<Layer, Args...>::value\<close>
  and \<open>has_specific_after_impl<Layer, Op>::value\<close> are taken as the compiler computes them.
  \<open>Impl_void_After_invocable\<close> says whether the layer has a generic after-hook for the
  operation: whether \<open>Layer::Impl<void>::After\<close> can be called with what an after-hook of
  the operation is passed (the result object and the arguments for a value-returning
  operation, the arguments for a void one). \<open>Before\<close> and \<open>After\<close> are the functions
  \<open>Layer::Impl<Op>::Before\<close> and \<open>Layer::Impl<Op>::After\<close> that the calls name (only called
  when a constant is true). The type \<open>'h\<close> of \<open>After\<close> is \<open>after_fn\<close> for a value-returning
  operation and \<open>proc\<close> for a void one.
\<close>

record ('n, 'a, 's, 'e, 'h) layer =
  layer_id :: 'n
  has_specific_before_impl :: bool
  has_generic_before_impl :: bool
  Before :: "('a, 's, 'e) proc"
  has_specific_after_impl :: bool
  Impl_void_After_invocable :: bool
  After :: 'h

text \<open>
  \<open>has_generic_after_impl<Layer, ReturnT, Args...>::value\<close> is true when the expression
  \<open>Layer::Impl<void>::After(std::declval<ReturnT&>(), std::declval<Args>()...)\<close> is valid.
  The void overload of \<open>ApplyAfterIfExists\<close> instantiates it with \<open>ReturnT = void\<close>; there is
  no \<open>void&\<close>, so the expression is never valid and \<open>test(int)\<close> is never chosen.
\<close>

datatype return_type = Void | NonVoid

definition has_generic_after_impl :: "return_type \<Rightarrow> ('n, 'a, 's, 'e, 'h) layer \<Rightarrow> bool" where
  "has_generic_after_impl ReturnT L =
     (case ReturnT of Void \<Rightarrow> False | NonVoid \<Rightarrow> Impl_void_After_invocable L)"

text \<open>The call \<open>Layer::template Impl<Op>::Before(std::forward<Args>(args)...)\<close>.\<close>

definition call_Before ::
  "resolution \<Rightarrow> ('n, 'a, 's, 'e, 'h) layer \<Rightarrow> ('n, 'a, 'r, 's) machine
     \<Rightarrow> ('e, unit) res \<times> ('n, 'a, 'r, 's) machine" where
  "call_Before how L m =
     (case Before L (args m) (user m) of
        (c, a', u') \<Rightarrow>
          (c, m\<lparr>args := a', user := u',
                calls := calls m @ [BeforeCall (layer_id L) how (args m)]\<rparr>))"

definition ApplyBeforeIfExists ::
  "('n, 'a, 's, 'e, 'h) layer \<Rightarrow> ('n, 'a, 'r, 's) machine
     \<Rightarrow> ('e, unit) res \<times> ('n, 'a, 'r, 's) machine" where
  "ApplyBeforeIfExists L m =
     (if has_specific_before_impl L then call_Before Specific L m
      else if has_generic_before_impl L then call_Before Generic L m
      else (Ret (), m))"

text \<open>
  The fold expression \<open>(ApplyBeforeIfExists<Op, Layers>(args...), ...)\<close> over the comma
  operator: left to right, left by the first exception.
\<close>

fun ApplyBefore_fold ::
  "('n, 'a, 's, 'e, 'h) layer list \<Rightarrow> ('n, 'a, 'r, 's) machine
     \<Rightarrow> ('e, unit) res \<times> ('n, 'a, 'r, 's) machine" where
  "ApplyBefore_fold [] m = (Ret (), m)"
| "ApplyBefore_fold (L # Ls) m =
     (case ApplyBeforeIfExists L m of
        (Throw e, m') \<Rightarrow> (Throw e, m')
      | (Ret _, m') \<Rightarrow> ApplyBefore_fold Ls m')"

text \<open>The core function \<open>CORE_FUNC()\<close>, that is \<open>func(args...)\<close>.\<close>

definition CORE_FUNC ::
  "('a, 'r, 's, 'e) func \<Rightarrow> ('n, 'a, 'r', 's) machine \<Rightarrow> ('e, 'r) res \<times> ('n, 'a, 'r', 's) machine" where
  "CORE_FUNC f m =
     (case f (args m) (user m) of
        (c, a', u') \<Rightarrow> (c, m\<lparr>args := a', user := u', calls := calls m @ [CoreCall (args m)]\<rparr>))"

subsection \<open>Value-returning operations\<close>

text \<open>The call \<open>First::template Impl<Op>::After(result, std::forward<Args>(args)...)\<close>.\<close>

definition call_After_value ::
  "resolution \<Rightarrow> ('n, 'a, 's, 'e, ('a, 'r, 's, 'e) after_fn) layer \<Rightarrow> 'r \<Rightarrow> ('n, 'a, 'r, 's) machine
     \<Rightarrow> ('e, unit) res \<times> 'r \<times> ('n, 'a, 'r, 's) machine" where
  "call_After_value how L result m =
     (case After L result (args m) (user m) of
        (c, r', a', u') \<Rightarrow>
          (c, r', m\<lparr>args := a', user := u',
                    calls := calls m @ [AfterCall (layer_id L) how (Some result) (args m)]\<rparr>))"

text \<open>The second statement of \<open>ApplyAfterIfExists\<close>: the hook of \<open>First\<close>, if it has one.\<close>

definition after_of_First_value ::
  "('n, 'a, 's, 'e, ('a, 'r, 's, 'e) after_fn) layer \<Rightarrow> 'r \<Rightarrow> ('n, 'a, 'r, 's) machine
     \<Rightarrow> ('e, unit) res \<times> 'r \<times> ('n, 'a, 'r, 's) machine" where
  "after_of_First_value First result m =
     (if has_specific_after_impl First then call_After_value Specific First result m
      else if has_generic_after_impl NonVoid First then call_After_value Generic First result m
      else (Ret (), result, m))"

text \<open>
  \<open>ApplyAfterIfExists<Op, ReturnT, First, Rest...>(result, args...)\<close>: first the recursive
  call on \<open>Rest...\<close> when it is not empty, then the hook of \<open>First\<close>.
\<close>

fun ApplyAfterIfExists_value ::
  "('n, 'a, 's, 'e, ('a, 'r, 's, 'e) after_fn) layer
     \<Rightarrow> ('n, 'a, 's, 'e, ('a, 'r, 's, 'e) after_fn) layer list
     \<Rightarrow> 'r \<Rightarrow> ('n, 'a, 'r, 's) machine
     \<Rightarrow> ('e, unit) res \<times> 'r \<times> ('n, 'a, 'r, 's) machine" where
  "ApplyAfterIfExists_value First [] result m = after_of_First_value First result m"
| "ApplyAfterIfExists_value First (R # Rs) result m =
     (case ApplyAfterIfExists_value R Rs result m of
        (Throw e, r', m') \<Rightarrow> (Throw e, r', m')
      | (Ret _, r', m') \<Rightarrow> after_of_First_value First r' m')"

text \<open>
  What \<open>Exec\<close> hands to its caller. \<open>NoMatchingFunction\<close> marks a call for which the
  source declares no viable overload: \<open>ApplyAfterIfExists<Op, Layers...>\<close> with an empty
  layer pack (both overloads need a \<open>First\<close>, which cannot be deduced).
\<close>

datatype ('e, 'r) outcome = Value 'r | Exception 'e | NoMatchingFunction

text \<open>
  \<open>Exec\<close> for a value-returning operation. With no layers the first block returns
  \<open>CORE_FUNC()\<close>; otherwise the before-hooks, the function, the after-hooks, \<open>return result\<close>.
\<close>

fun Exec_value ::
  "('n, 'a, 's, 'e, ('a, 'r, 's, 'e) after_fn) layer list \<Rightarrow> ('a, 'r, 's, 'e) func
     \<Rightarrow> ('n, 'a, 'r, 's) machine \<Rightarrow> ('e, 'r) outcome \<times> ('n, 'a, 'r, 's) machine" where
  "Exec_value [] f m =
     (case CORE_FUNC f m of
        (Throw e, m') \<Rightarrow> (Exception e, m')
      | (Ret v, m') \<Rightarrow> (Value v, m'))"
| "Exec_value (First # Rest) f m =
     (case ApplyBefore_fold (First # Rest) m of
        (Throw e, m1) \<Rightarrow> (Exception e, m1)
      | (Ret _, m1) \<Rightarrow>
          (case CORE_FUNC f m1 of
             (Throw e, m2) \<Rightarrow> (Exception e, m2)
           | (Ret result, m2) \<Rightarrow>
               (case ApplyAfterIfExists_value First Rest result m2 of
                  (Throw e, _, m3) \<Rightarrow> (Exception e, m3)
                | (Ret _, result', m3) \<Rightarrow> (Value result', m3))))"

subsection \<open>Void operations\<close>

text \<open>The call \<open>First::template Impl<Op>::After(std::forward<Args>(args)...)\<close>.\<close>

definition call_After_void ::
  "resolution \<Rightarrow> ('n, 'a, 's, 'e, ('a, 's, 'e) proc) layer \<Rightarrow> ('n, 'a, 'r, 's) machine
     \<Rightarrow> ('e, unit) res \<times> ('n, 'a, 'r, 's) machine" where
  "call_After_void how L m =
     (case After L (args m) (user m) of
        (c, a', u') \<Rightarrow>
          (c, m\<lparr>args := a', user := u',
                calls := calls m @ [AfterCall (layer_id L) how None (args m)]\<rparr>))"

definition after_of_First_void ::
  "('n, 'a, 's, 'e, ('a, 's, 'e) proc) layer \<Rightarrow> ('n, 'a, 'r, 's) machine
     \<Rightarrow> ('e, unit) res \<times> ('n, 'a, 'r, 's) machine" where
  "after_of_First_void First m =
     (if has_specific_after_impl First then call_After_void Specific First m
      else if has_generic_after_impl Void First then call_After_void Generic First m
      else (Ret (), m))"

fun ApplyAfterIfExists_void ::
  "('n, 'a, 's, 'e, ('a, 's, 'e) proc) layer \<Rightarrow> ('n, 'a, 's, 'e, ('a, 's, 'e) proc) layer list
     \<Rightarrow> ('n, 'a, 'r, 's) machine \<Rightarrow> ('e, unit) res \<times> ('n, 'a, 'r, 's) machine" where
  "ApplyAfterIfExists_void First [] m = after_of_First_void First m"
| "ApplyAfterIfExists_void First (R # Rs) m =
     (case ApplyAfterIfExists_void R Rs m of
        (Throw e, m') \<Rightarrow> (Throw e, m')
      | (Ret _, m') \<Rightarrow> after_of_First_void First m')"

text \<open>
  \<open>Exec\<close> for a void operation. The first block, for an empty layer pack, is the
  statement \<open>CORE_FUNC();\<close> with no \<open>return\<close>, so control goes on to the statements that
  follow it: the (empty) fold of the before-hooks, \<open>CORE_FUNC();\<close> again and
  \<open>ApplyAfterIfExists<Op, Layers...>(args...)\<close>.
\<close>

definition Exec_void ::
  "('n, 'a, 's, 'e, ('a, 's, 'e) proc) layer list \<Rightarrow> ('a, unit, 's, 'e) func
     \<Rightarrow> ('n, 'a, 'r, 's) machine \<Rightarrow> ('e, unit) outcome \<times> ('n, 'a, 'r, 's) machine" where
  "Exec_void Layers f m =
     (case (if Layers = [] then CORE_FUNC f m else (Ret (), m)) of
        (Throw e, m0) \<Rightarrow> (Exception e, m0)
      | (Ret _, m0) \<Rightarrow>
          (case ApplyBefore_fold Layers m0 of
             (Throw e, m1) \<Rightarrow> (Exception e, m1)
           | (Ret _, m1) \<Rightarrow>
               (case CORE_FUNC f m1 of
                  (Throw e, m2) \<Rightarrow> (Exception e, m2)
                | (Ret _, m2) \<Rightarrow>
                    (case Layers of
                       [] \<Rightarrow> (NoMatchingFunction, m2)
                     | First # Rest \<Rightarrow>
                         (case ApplyAfterIfExists_void First Rest m2 of
                            (Throw e, m3) \<Rightarrow> (Exception e, m3)
                          | (Ret _, m3) \<Rightarrow> (Value (), m3))))))"


subsection \<open>Vocabulary for the order of calls\<close>

datatype 'n label = Before_of 'n | Core_call | After_of 'n



text \<open>A layer resolves a hook when one of the two constants of that hook kind is true.\<close>

definition resolves_before :: "('n, 'a, 's, 'e, 'h) layer \<Rightarrow> bool" where
  "resolves_before L = (has_specific_before_impl L \<or> has_generic_before_impl L)"

definition resolves_after :: "return_type \<Rightarrow> ('n, 'a, 's, 'e, 'h) layer \<Rightarrow> bool" where
  "resolves_after ReturnT L = (has_specific_after_impl L \<or> has_generic_after_impl ReturnT L)"

text \<open>The orders the specification asks for: list order before, reverse list order after.\<close>

definition before_order :: "('n, 'a, 's, 'e, 'h) layer list \<Rightarrow> 'n label list" where
  "before_order Ls = map (\<lambda>L. Before_of (layer_id L)) (filter resolves_before Ls)"


text \<open>
  An auxiliary form of the after-phase of a value-returning operation, used in the proofs:
  the second statement of \<open>ApplyAfterIfExists\<close> applied along a list of layers.
\<close>

fun after_chain ::
  "('n, 'a, 's, 'e, ('a, 'r, 's, 'e) after_fn) layer list \<Rightarrow> 'r \<Rightarrow> ('n, 'a, 'r, 's) machine
     \<Rightarrow> ('e, unit) res \<times> 'r \<times> ('n, 'a, 'r, 's) machine" where
  "after_chain [] result m = (Ret (), result, m)"
| "after_chain (L # Ls) result m =
     (case after_of_First_value L result m of
        (Throw e, r', m') \<Rightarrow> (Throw e, r', m')
      | (Ret _, r', m') \<Rightarrow> after_chain Ls r' m')"

text \<open>The same auxiliary form for a void operation.\<close>

fun after_chain_void ::
  "('n, 'a, 's, 'e, ('a, 's, 'e) proc) layer list \<Rightarrow> ('n, 'a, 'r, 's) machine
     \<Rightarrow> ('e, unit) res \<times> ('n, 'a, 'r, 's) machine" where
  "after_chain_void [] m = (Ret (), m)"
| "after_chain_void (L # Ls) m =
     (case after_of_First_void L m of
        (Throw e, m') \<Rightarrow> (Throw e, m')
      | (Ret _, m') \<Rightarrow> after_chain_void Ls m')"

text \<open>
  The specification's reading of the after-phase, written on the hooks themselves. The
  layers are given in the order their hooks are invoked. For a value-returning operation
  each resolved hook is called with the result object, the arguments and the rest of the
  state as the hook invoked before it left them, and what the last hook leaves is what
  \<open>Exec\<close> returns; a throwing hook ends the phase.
\<close>

fun hooks_after ::
  "('n, 'a, 's, 'e, ('a, 'r, 's, 'e) after_fn) layer list \<Rightarrow> 'r \<Rightarrow> 'a \<Rightarrow> 's
     \<Rightarrow> ('e, unit) res \<times> 'r \<times> 'a \<times> 's" where
  "hooks_after [] result a u = (Ret (), result, a, u)"
| "hooks_after (L # Ls) result a u =
     (if resolves_after NonVoid L
      then (case After L result a u of
              (Throw e, r', a', u') \<Rightarrow> (Throw e, r', a', u')
            | (Ret _, r', a', u') \<Rightarrow> hooks_after Ls r' a' u')
      else hooks_after Ls result a u)"

text \<open>The values of the result object the invoked hooks receive, in the order of the calls.\<close>

fun results_seen ::
  "('n, 'a, 's, 'e, ('a, 'r, 's, 'e) after_fn) layer list \<Rightarrow> 'r \<Rightarrow> 'a \<Rightarrow> 's \<Rightarrow> 'r list" where
  "results_seen [] result a u = []"
| "results_seen (L # Ls) result a u =
     (if resolves_after NonVoid L
      then result # (case After L result a u of
                       (Throw e, r', a', u') \<Rightarrow> []
                     | (Ret _, r', a', u') \<Rightarrow> results_seen Ls r' a' u')
      else results_seen Ls result a u)"

text \<open>For a void operation each resolved hook is called with the arguments only.\<close>

fun hooks_after_void ::
  "('n, 'a, 's, 'e, ('a, 's, 'e) proc) layer list \<Rightarrow> 'a \<Rightarrow> 's \<Rightarrow> ('e, unit) res \<times> 'a \<times> 's" where
  "hooks_after_void [] a u = (Ret (), a, u)"
| "hooks_after_void (L # Ls) a u =
     (if resolves_after Void L
      then (case After L a u of
              (Throw e, a', u') \<Rightarrow> (Throw e, a', u')
            | (Ret _, a', u') \<Rightarrow> hooks_after_void Ls a' u')
      else hooks_after_void Ls a u)"

text \<open>The result objects the recorded after-hook calls were handed, in call order.\<close>

fun results_passed :: "('n, 'a, 'r) call list \<Rightarrow> 'r option list" where
  "results_passed [] = []"
| "results_passed (AfterCall _ _ ro _ # cs) = ro # results_passed cs"
| "results_passed (_ # cs) = results_passed cs"


section \<open>The state store (LayerState, LayerStateRegistry, LayerStateWrapper, LayerStateManager)\<close>

text \<open>
  The members \<open>data_\<close>, \<open>observers_\<close>, \<open>states_\<close> and \<open>state_\<close> of the source are written
  without the trailing underscore here. The model follows one thread; the mutexes, which only order the operations of different
  threads, are left out. An observer is a \<open>std::function<void(const T&)>\<close>: it reads the
  value, acts on whatever its closure captured (\<open>'w\<close>) and may throw.
\<close>

type_synonym ('t, 'w, 'e) observer = "'t \<Rightarrow> 'w \<Rightarrow> ('e, unit) res \<times> 'w"

record ('t, 'w, 'e) LayerState =
  data :: 't
  observers :: "('t, 'w, 'e) observer list"

text \<open>
  What lies outside the store: the captured state of the observers, and the record of
  observer calls (position of the observer in \<open>observers_\<close>, value passed).
\<close>

record ('t, 'w) world =
  outside :: 'w
  notified :: "(nat \<times> 't) list"

text \<open>
  \<open>notifyObservers\<close>: the range-for loop over \<open>observers\<close>, calling \<open>observer(data)\<close>; an
  exception leaves the loop.
\<close>

fun notify_from ::
  "nat \<Rightarrow> ('t, 'w, 'e) observer list \<Rightarrow> 't \<Rightarrow> ('t, 'w) world \<Rightarrow> ('e, unit) res \<times> ('t, 'w) world" where
  "notify_from i [] d wd = (Ret (), wd)"
| "notify_from i (observer # rest) d wd =
     (case observer d (outside wd) of
        (Throw e, w') \<Rightarrow> (Throw e, wd\<lparr>outside := w', notified := notified wd @ [(i, d)]\<rparr>)
      | (Ret _, w') \<Rightarrow>
          notify_from (Suc i) rest d (wd\<lparr>outside := w', notified := notified wd @ [(i, d)]\<rparr>))"

definition notifyObservers ::
  "('t, 'w, 'e) LayerState \<Rightarrow> ('t, 'w) world \<Rightarrow> ('e, unit) res \<times> ('t, 'w) world" where
  "notifyObservers st wd = notify_from 0 (observers st) (data st) wd"

text \<open>
  What the specification asks of a notification that completes: every observer of the list
  has been called once with the value, the first of the list first, each acting on what
  the one before it left.
\<close>

fun effect_in_order :: "('t, 'w, 'e) observer list \<Rightarrow> 't \<Rightarrow> 'w \<Rightarrow> 'w" where
  "effect_in_order [] d w = w"
| "effect_in_order (observer # rest) d w = effect_in_order rest d (snd (observer d w))"

definition read ::
  "('t, 'w, 'e) LayerState \<Rightarrow> ('t, 'w) world \<Rightarrow> 't \<times> ('t, 'w, 'e) LayerState \<times> ('t, 'w) world" where
  "read st wd = (data st, st, wd)"

text \<open>\<open>write(newData)\<close>, named \<open>write_data\<close> since \<open>write\<close> is a keyword of the prover.\<close>

definition write_data ::
  "'t \<Rightarrow> ('t, 'w, 'e) LayerState \<Rightarrow> ('t, 'w) world
     \<Rightarrow> ('e, unit) res \<times> ('t, 'w, 'e) LayerState \<times> ('t, 'w) world" where
  "write_data newData st wd =
     (case notifyObservers (st\<lparr>data := newData\<rparr>) wd of
        (c, wd') \<Rightarrow> (c, st\<lparr>data := newData\<rparr>, wd'))"

text \<open>
  \<open>modify(func)\<close>: \<open>func(data)\<close> works on the value in place and may throw, in which case
  \<open>notifyObservers\<close> is not reached.
\<close>

definition modify ::
  "('t \<Rightarrow> ('e, unit) res \<times> 't) \<Rightarrow> ('t, 'w, 'e) LayerState \<Rightarrow> ('t, 'w) world
     \<Rightarrow> ('e, unit) res \<times> ('t, 'w, 'e) LayerState \<times> ('t, 'w) world" where
  "modify func st wd =
     (case func (data st) of
        (Throw e, d') \<Rightarrow> (Throw e, st\<lparr>data := d'\<rparr>, wd)
      | (Ret _, d') \<Rightarrow>
          (case notifyObservers (st\<lparr>data := d'\<rparr>) wd of
             (c, wd') \<Rightarrow> (c, st\<lparr>data := d'\<rparr>, wd')))"

definition addObserver ::
  "('t, 'w, 'e) observer \<Rightarrow> ('t, 'w, 'e) LayerState \<Rightarrow> ('t, 'w, 'e) LayerState" where
  "addObserver observer st = st\<lparr>observers := observers st @ [observer]\<rparr>"

text \<open>
  \<open>access()\<close> returns a \<open>Proxy\<close>; the code of the scope reaches \<open>data\<close> through
  \<open>Proxy::operator->\<close>, reading or changing it, and ends by returning or throwing; then
  \<open>~Proxy()\<close> runs \<open>notifyObservers\<close>. The destructor is implicitly \<open>noexcept\<close>, so an
  observer that throws there ends the program (\<open>std::terminate\<close>).
\<close>

datatype ('e, 'v) scope_end = Scope_left "('e, 'v) res" | Terminated

definition access ::
  "('t \<Rightarrow> ('e, 'v) res \<times> 't) \<Rightarrow> ('t, 'w, 'e) LayerState \<Rightarrow> ('t, 'w) world
     \<Rightarrow> ('e, 'v) scope_end \<times> ('t, 'w, 'e) LayerState \<times> ('t, 'w) world" where
  "access scope st wd =
     (case scope (data st) of
        (c, d') \<Rightarrow>
          (case notifyObservers (st\<lparr>data := d'\<rparr>) wd of
             (Throw e, wd') \<Rightarrow> (Terminated, st\<lparr>data := d'\<rparr>, wd')
           | (Ret _, wd') \<Rightarrow> (Scope_left c, st\<lparr>data := d'\<rparr>, wd')))"

subsection \<open>LayerStateRegistry\<close>

text \<open>
  The registry maps a type index and a context key to a \<open>shared_ptr\<close> to a store. The
  stores live in \<open>objects\<close>, addressed by the order of their creation; a store stays there
  as long as the model runs, as it does for the holder of a \<open>shared_ptr\<close>.
\<close>

record ('ty, 't, 'w, 'e) LayerStateRegistry =
  states :: "'ty \<rightharpoonup> (string \<rightharpoonup> nat)"
  objects :: "nat \<rightharpoonup> ('t, 'w, 'e) LayerState"
  allocated :: nat

definition empty_registry :: "('ty, 't, 'w, 'e) LayerStateRegistry" where
  "empty_registry = \<lparr>states = Map.empty, objects = Map.empty, allocated = 0\<rparr>"





text \<open>
  \<open>getOrCreateState<T>(key)\<close>. \<open>states[type_index]\<close> creates the inner map when there is
  none. A new store holds a value-initialized \<open>T\<close>, given here as \<open>T_init\<close>, and no observers.
\<close>

definition getOrCreateState ::
  "('ty \<Rightarrow> 't) \<Rightarrow> 'ty \<Rightarrow> string \<Rightarrow> ('ty, 't, 'w, 'e) LayerStateRegistry
     \<Rightarrow> nat \<times> ('ty, 't, 'w, 'e) LayerStateRegistry" where
  "getOrCreateState T_init T key reg =
     (let typeMap = (case states reg T of None \<Rightarrow> Map.empty | Some tm \<Rightarrow> tm)
      in case typeMap key of
           None \<Rightarrow>
             (allocated reg,
              reg\<lparr>states := (states reg)(T \<mapsto> typeMap(key \<mapsto> allocated reg)),
                  objects := (objects reg)(allocated reg \<mapsto> \<lparr>data = T_init T, observers = []\<rparr>),
                  allocated := Suc (allocated reg)\<rparr>)
         | Some p \<Rightarrow> (p, reg\<lparr>states := (states reg)(T \<mapsto> typeMap)\<rparr>))"

definition clear :: "('ty, 't, 'w, 'e) LayerStateRegistry \<Rightarrow> ('ty, 't, 'w, 'e) LayerStateRegistry" where
  "clear reg = reg\<lparr>states := Map.empty\<rparr>"

definition removeState ::
  "'ty \<Rightarrow> string \<Rightarrow> ('ty, 't, 'w, 'e) LayerStateRegistry \<Rightarrow> ('ty, 't, 'w, 'e) LayerStateRegistry" where
  "removeState T key reg =
     (case states reg T of
        None \<Rightarrow> reg
      | Some typeMap \<Rightarrow> reg\<lparr>states := (states reg)(T \<mapsto> typeMap(key := None))\<rparr>)"

text \<open>
  The registries the operations can produce: every registered pointer is the address of a
  store created earlier, and two keys of one type never share a store (each entry was
  filled by its own \<open>make_shared\<close>).
\<close>

definition registry_ok :: "('ty, 't, 'w, 'e) LayerStateRegistry \<Rightarrow> bool" where
  "registry_ok reg =
     ((\<forall>T tm k p. states reg T = Some tm \<longrightarrow> tm k = Some p \<longrightarrow> p < allocated reg)
      \<and> (\<forall>T tm k k' p. states reg T = Some tm \<longrightarrow> tm k = Some p \<longrightarrow> tm k' = Some p \<longrightarrow> k = k'))"

subsection \<open>LayerStateWrapper and LayerStateManager\<close>

record LayerStateWrapper =
  state :: nat




text \<open>
  The members of the wrapper forward to the store \<open>state\<close> points to. \<open>None\<close> stands for a
  pointer to no store, which a wrapper obtained from the manager never holds.
  \<open>operator->\<close> is \<open>state->access()\<close>: the member access written after the arrow is the
  scope of the temporary \<open>Proxy\<close>, destroyed at the end of the full expression.
\<close>

definition through ::
  "LayerStateWrapper
     \<Rightarrow> (('t, 'w, 'e) LayerState \<Rightarrow> ('t, 'w) world \<Rightarrow> 'x \<times> ('t, 'w, 'e) LayerState \<times> ('t, 'w) world)
     \<Rightarrow> ('ty, 't, 'w, 'e) LayerStateRegistry \<Rightarrow> ('t, 'w) world
     \<Rightarrow> ('x \<times> ('ty, 't, 'w, 'e) LayerStateRegistry \<times> ('t, 'w) world) option" where
  "through h member reg wd =
     (case objects reg (state h) of
        None \<Rightarrow> None
      | Some st \<Rightarrow>
          (case member st wd of
             (x, st', wd') \<Rightarrow> Some (x, reg\<lparr>objects := (objects reg)(state h \<mapsto> st')\<rparr>, wd')))"

definition Wrapper_arrow ::
  "LayerStateWrapper \<Rightarrow> ('t \<Rightarrow> ('e, 'v) res \<times> 't)
     \<Rightarrow> ('ty, 't, 'w, 'e) LayerStateRegistry \<Rightarrow> ('t, 'w) world
     \<Rightarrow> (('e, 'v) scope_end \<times> ('ty, 't, 'w, 'e) LayerStateRegistry \<times> ('t, 'w) world) option" where
  "Wrapper_arrow h scope = through h (access scope)"

definition Wrapper_read ::
  "LayerStateWrapper \<Rightarrow> ('ty, 't, 'w, 'e) LayerStateRegistry \<Rightarrow> ('t, 'w) world
     \<Rightarrow> ('t \<times> ('ty, 't, 'w, 'e) LayerStateRegistry \<times> ('t, 'w) world) option" where
  "Wrapper_read h = through h read"

definition Wrapper_write ::
  "LayerStateWrapper \<Rightarrow> 't \<Rightarrow> ('ty, 't, 'w, 'e) LayerStateRegistry \<Rightarrow> ('t, 'w) world
     \<Rightarrow> (('e, unit) res \<times> ('ty, 't, 'w, 'e) LayerStateRegistry \<times> ('t, 'w) world) option" where
  "Wrapper_write h newData = through h (write_data newData)"

definition Wrapper_modify ::
  "LayerStateWrapper \<Rightarrow> ('t \<Rightarrow> ('e, unit) res \<times> 't)
     \<Rightarrow> ('ty, 't, 'w, 'e) LayerStateRegistry \<Rightarrow> ('t, 'w) world
     \<Rightarrow> (('e, unit) res \<times> ('ty, 't, 'w, 'e) LayerStateRegistry \<times> ('t, 'w) world) option" where
  "Wrapper_modify h func = through h (modify func)"

definition Wrapper_addObserver ::
  "LayerStateWrapper \<Rightarrow> ('t, 'w, 'e) observer
     \<Rightarrow> ('ty, 't, 'w, 'e) LayerStateRegistry \<Rightarrow> ('t, 'w) world
     \<Rightarrow> (unit \<times> ('ty, 't, 'w, 'e) LayerStateRegistry \<times> ('t, 'w) world) option" where
  "Wrapper_addObserver h observer = through h (\<lambda>st wd. ((), addObserver observer st, wd))"


section \<open>Example layers and operations, after the repository's tests\<close>

text \<open>
  For a hook a layer does not define there is no function; the record field then holds
  a placeholder that is never called.
\<close>

definition no_hook :: "('a, 's, 'e) proc" where
  "no_hook a s = (Ret (), a, s)"

definition no_After :: "('a, 'r, 's, 'e) after_fn" where
  "no_After r a s = (Ret (), r, a, s)"

record usage_state =
  operationCount :: nat
  Log :: "(int \<times> int \<times> int) list"

text \<open>\<open>LayerOpAdd : LayerOp<int, int, int>\<close> and the function \<open>Add\<close>.\<close>

definition Add :: "(int \<times> int, int, usage_state, string) func" where
  "Add = (\<lambda>(a, b) s. (Ret (a + b), (a, b), s))"

text \<open>A function of the same shape that throws.\<close>

definition Divide :: "(int \<times> int, int, usage_state, string) func" where
  "Divide = (\<lambda>(a, b) s. if b = 0 then (Throw ''Division by zero'', (a, b), s)
                          else (Ret (a div b), (a, b), s))"

text \<open>\<open>MetricsLayer\<close>: a generic \<open>Before\<close> (a function template), no \<open>After\<close>.\<close>

definition MetricsLayer ::
  "(string, int \<times> int, usage_state, string, (int \<times> int, int, usage_state, string) after_fn) layer" where
  "MetricsLayer =
     \<lparr>layer_id = ''MetricsLayer'',
      has_specific_before_impl = False, has_generic_before_impl = True,
      Before = (\<lambda>a s. (Ret (), a, s\<lparr>operationCount := operationCount s + 1\<rparr>)),
      has_specific_after_impl = False, Impl_void_After_invocable = False,
      After = no_After\<rparr>"

text \<open>\<open>LoggingLayer::Impl<LayerOpAdd>\<close>: only \<open>After(int& result, int a, int b)\<close>.\<close>

definition LoggingLayer ::
  "(string, int \<times> int, usage_state, string, (int \<times> int, int, usage_state, string) after_fn) layer" where
  "LoggingLayer =
     \<lparr>layer_id = ''LoggingLayer'',
      has_specific_before_impl = False, has_generic_before_impl = False,
      Before = no_hook,
      has_specific_after_impl = True, Impl_void_After_invocable = False,
      After = (\<lambda>result (a, b) s. (Ret (), result, (a, b), s\<lparr>Log := Log s @ [(a, b, result)]\<rparr>))\<rparr>"

text \<open>\<open>ValidationLayer::Impl<LayerOpAdd>\<close>: only \<open>Before(int a, int b)\<close>, which may throw.\<close>

definition ValidationLayer ::
  "(string, int \<times> int, usage_state, string, (int \<times> int, int, usage_state, string) after_fn) layer" where
  "ValidationLayer =
     \<lparr>layer_id = ''ValidationLayer'',
      has_specific_before_impl = True, has_generic_before_impl = False,
      Before = (\<lambda>(a, b) s. if a < 0 \<or> b < 0
                            then (Throw ''Negative numbers not allowed'', (a, b), s)
                            else (Ret (), (a, b), s)),
      has_specific_after_impl = False, Impl_void_After_invocable = False,
      After = no_After\<rparr>"

text \<open>Two layers whose after-hooks rewrite the result in place.\<close>

definition ScaleLayer ::
  "(string, int \<times> int, usage_state, string, (int \<times> int, int, usage_state, string) after_fn) layer" where
  "ScaleLayer =
     \<lparr>layer_id = ''ScaleLayer'',
      has_specific_before_impl = False, has_generic_before_impl = False,
      Before = no_hook,
      has_specific_after_impl = True, Impl_void_After_invocable = False,
      After = (\<lambda>result a s. (Ret (), 2 * result, a, s))\<rparr>"

definition OffsetLayer ::
  "(string, int \<times> int, usage_state, string, (int \<times> int, int, usage_state, string) after_fn) layer" where
  "OffsetLayer =
     \<lparr>layer_id = ''OffsetLayer'',
      has_specific_before_impl = False, has_generic_before_impl = False,
      Before = no_hook,
      has_specific_after_impl = False, Impl_void_After_invocable = True,
      After = (\<lambda>result a s. (Ret (), result + 1, a, s))\<rparr>"

definition usage_start :: "int \<times> int \<Rightarrow> (string, int \<times> int, int, usage_state) machine" where
  "usage_start a = \<lparr>args = a, user = \<lparr>operationCount = 0, Log = []\<rparr>, calls = []\<rparr>"

text \<open>
  The void operation \<open>DummyOp : LayerOp<void, int>\<close> with \<open>CounterLayer\<close>, whose \<open>Impl\<close> defines
  the plain functions \<open>Before(int)\<close> and \<open>After(int)\<close>, and a layer whose \<open>Before\<close> throws.
\<close>

record CounterState =
  cvalue :: int
  history :: "string list"

definition CounterLayer ::
  "(string, int, CounterState, string, (int, CounterState, string) proc) layer" where
  "CounterLayer =
     \<lparr>layer_id = ''CounterLayer'',
      has_specific_before_impl = True, has_generic_before_impl = True,
      Before = (\<lambda>v s. (Ret (), v, s\<lparr>cvalue := cvalue s + 1,
                                      history := history s @ [''Before called'']\<rparr>)),
      has_specific_after_impl = True, Impl_void_After_invocable = True,
      After = (\<lambda>v s. (Ret (), v, s\<lparr>history := history s @ [''After called'']\<rparr>))\<rparr>"

definition GuardLayer ::
  "(string, int, CounterState, string, (int, CounterState, string) proc) layer" where
  "GuardLayer =
     \<lparr>layer_id = ''GuardLayer'',
      has_specific_before_impl = True, has_generic_before_impl = False,
      Before = (\<lambda>v s. if v < 0 then (Throw ''Negative value'', v, s) else (Ret (), v, s)),
      has_specific_after_impl = False, Impl_void_After_invocable = False,
      After = no_hook\<rparr>"

text \<open>
  A layer whose \<open>Impl\<close> is a primary template with a function template
  \<open>template <typename... Args> static void After(Args&&...)\<close> and nothing else: no
  \<open>decltype\<close> can be taken of the name \<open>After\<close>, but the function can be called with
  the argument of \<open>DummyOp\<close>.
\<close>

definition TraceLayer ::
  "(string, int, CounterState, string, (int, CounterState, string) proc) layer" where
  "TraceLayer =
     \<lparr>layer_id = ''TraceLayer'',
      has_specific_before_impl = False, has_generic_before_impl = False,
      Before = no_hook,
      has_specific_after_impl = False, Impl_void_After_invocable = True,
      After = (\<lambda>v s. (Ret (), v, s\<lparr>history := history s @ [''After called'']\<rparr>))\<rparr>"

definition Dummy :: "(int, unit, CounterState, string) func" where
  "Dummy = (\<lambda>v s. (Ret (), v, s))"

text \<open>A void function with an effect of its own.\<close>

definition Touch :: "(int, unit, CounterState, string) func" where
  "Touch = (\<lambda>v s. (Ret (), v, s\<lparr>history := history s @ [''Function called'']\<rparr>))"

definition Reject :: "(int, unit, CounterState, string) func" where
  "Reject = (\<lambda>v s. if v = 0 then (Throw ''Zero'', v, s) else (Ret (), v, s))"

definition counter_start :: "int \<Rightarrow> (string, int, unit, CounterState) machine" where
  "counter_start v = \<lparr>args = v, user = \<lparr>cvalue = 0, history = []\<rparr>, calls = []\<rparr>"

text \<open>
  The state and the observers of the tests \<open>StateObserver\<close> and \<open>MultipleObservers\<close>: each
  observer appends the counter of the value it is passed to a vector of its own.
\<close>

record TestState =
  counter :: int
  message :: string

definition TestState_init :: "string \<Rightarrow> TestState" where
  "TestState_init T = \<lparr>counter = 0, message = []\<rparr>"

definition observer1 :: "(TestState, int list \<times> int list, string) observer" where
  "observer1 newState w = (Ret (), (fst w @ [counter newState], snd w))"

definition observer2 :: "(TestState, int list \<times> int list, string) observer" where
  "observer2 newState w = (Ret (), (fst w, snd w @ [counter newState]))"

definition observed_store :: "(TestState, int list \<times> int list, string) LayerState" where
  "observed_store = \<lparr>data = \<lparr>counter = 0, message = []\<rparr>, observers = [observer1, observer2]\<rparr>"

definition quiet_world :: "(TestState, int list \<times> int list) world" where
  "quiet_world = \<lparr>outside = ([], []), notified = []\<rparr>"

definition observed_registry ::
  "(string, TestState, int list \<times> int list, string) LayerStateRegistry" where
  "observed_registry =
     \<lparr>states = [''TestState'' \<mapsto> [''observed'' \<mapsto> 0]],
      objects = [0 \<mapsto> observed_store],
      allocated = 1\<rparr>"

text \<open>
  Two observers that append to one shared log, so that the order of their calls shows, and
  a store on which they are registered in that order.
\<close>

definition log_first :: "(TestState, (string \<times> int) list, string) observer" where
  "log_first newState w = (Ret (), w @ [(''first'', counter newState)])"

definition log_second :: "(TestState, (string \<times> int) list, string) observer" where
  "log_second newState w = (Ret (), w @ [(''second'', counter newState)])"

definition logged_store :: "(TestState, (string \<times> int) list, string) LayerState" where
  "logged_store =
     addObserver log_second (addObserver log_first \<lparr>data = \<lparr>counter = 0, message = []\<rparr>, observers = []\<rparr>)"

definition silent_world :: "(TestState, (string \<times> int) list) world" where
  "silent_world = \<lparr>outside = [], notified = []\<rparr>"


section \<open>Properties of LayerFilter\<close>

lemma EnabledLayers_filter:
  "EnabledLayers specs ls = Strata (filter (compiletimeEnabled specs) ls)"
  by (induction ls) simp_all

lemma LayerFilterImpl_plain:
  "LayerFilterImpl specs (map Layer ns) = EnabledLayers specs (map Layer ns)"
proof (cases ns)
  case Nil
  then show ?thesis by simp
next
  case (Cons n ns')
  then show ?thesis by (cases ns') simp_all
qed

lemma LayerFilterImpl_is_filter:
  "\<exists>xs. LayerFilterImpl specs ls = Strata (filter (compiletimeEnabled specs) xs)"
proof -
  have "\<exists>xs. LayerFilterImpl specs ls = EnabledLayers specs xs"
    by (cases "(specs, ls)" rule: LayerFilterImpl.cases)
       (simp_all only: LayerFilterImpl.simps prod.inject, blast+)
  then show ?thesis
    by (simp add: EnabledLayers_filter)
qed

text \<open>
  Claim C6. Whether the layer types are given as a variadic list of layer types or as one
  \<open>LayerPack\<close>, \<open>LayerFilter\<close> yields the \<open>Strata\<close> whose layer list is the input list restricted
  to the layers with \<open>compiletimeEnabled = true\<close>, in the input's relative order
  (\<open>filter\<close> keeps order and multiplicity).
\<close>

theorem LayerFilter_enabled_subsequence:
  "LayerFilter specs (map Layer ns) = Strata (filter (compiletimeEnabled specs) (map Layer ns))
   \<and> LayerFilter specs [LayerPack ls] = Strata (filter (compiletimeEnabled specs) ls)"
  by (simp add: LayerFilter_def LayerFilterImpl_plain EnabledLayers_filter)

text \<open>
  Claim C9. A layer type without a \<open>LayerTraits\<close> specialization has
  \<open>compiletimeEnabled = false\<close>, hence \<open>IsLayerEnabled\<close> is false and the layer does not occur
  in the layer list of any pipeline \<open>LayerFilter\<close> produces.
\<close>

theorem unspecialized_layer_disabled:
  assumes "specs L = None"
  shows "compiletimeEnabled specs L = False
         \<and> IsLayerEnabled specs L = False
         \<and> L \<notin> set (layers (LayerFilter specs ls))"
proof -
  have d: "\<not> compiletimeEnabled specs L"
    using assms by (simp add: compiletimeEnabled_def)
  obtain xs where "LayerFilterImpl specs ls = Strata (filter (compiletimeEnabled specs) xs)"
    using LayerFilterImpl_is_filter by blast
  then have "L \<notin> set (layers (LayerFilter specs ls))"
    using d by (simp add: LayerFilter_def)
  then show ?thesis
    using d by (simp add: IsLayerEnabled_def)
qed

theorem unspecialized_layer_disabled_witness:
  "[Layer (1::nat) \<mapsto> True, Layer 3 \<mapsto> True] (Layer 2) = None
   \<and> IsLayerEnabled [Layer (1::nat) \<mapsto> True, Layer 3 \<mapsto> True] (Layer 2) = False
   \<and> LayerFilter [Layer (1::nat) \<mapsto> True, Layer 3 \<mapsto> True] [Layer 1, Layer 2, Layer 3]
       = Strata [Layer 1, Layer 3]
   \<and> Layer 2 \<notin> set (layers (LayerFilter [Layer (1::nat) \<mapsto> True, Layer 3 \<mapsto> True]
                                 [Layer 1, Layer 2, Layer 3]))"
  using unspecialized_layer_disabled
          [of "[Layer (1::nat) \<mapsto> True, Layer 3 \<mapsto> True]" "Layer 2" "[Layer 1, Layer 2, Layer 3]"]
  by (simp add: LayerFilter_def compiletimeEnabled_def)


section \<open>Properties of the pipeline\<close>

subsection \<open>The order of calls\<close>




lemma before_order_append: "before_order (xs @ ys) = before_order xs @ before_order ys"
  by (simp add: before_order_def)











subsection \<open>The after-phase as a chain; faults\<close>

lemma after_chain_append:
  "after_chain (xs @ ys) r m =
     (case after_chain xs r m of
        (Throw e, r', m') \<Rightarrow> (Throw e, r', m')
      | (Ret _, r', m') \<Rightarrow> after_chain ys r' m')"
  by (induction xs arbitrary: r m) (auto split: prod.splits res.splits)

lemma after_chain_single: "after_chain [L] r m = after_of_First_value L r m"
  by (auto split: prod.splits res.splits)

lemma ApplyAfterIfExists_value_chain:
  "ApplyAfterIfExists_value First Rest r m = after_chain (rev (First # Rest)) r m"
proof (induction First Rest r m rule: ApplyAfterIfExists_value.induct)
  case (1 First result m)
  then show ?case by (auto split: prod.splits res.splits)
next
  case (2 First R Rs result m)
  have "after_chain (rev (First # R # Rs)) result m =
          (case after_chain (rev (R # Rs)) result m of
             (Throw e, r', m') \<Rightarrow> (Throw e, r', m')
           | (Ret _, r', m') \<Rightarrow> after_chain [First] r' m')"
    using after_chain_append[of "rev (R # Rs)" "[First]" result m] by simp
  with 2 show ?case
    by (simp add: after_chain_single split: prod.splits res.splits)
qed

lemma ApplyBefore_fold_append:
  "ApplyBefore_fold (xs @ ys) m =
     (case ApplyBefore_fold xs m of
        (Throw e, m') \<Rightarrow> (Throw e, m')
      | (Ret _, m') \<Rightarrow> ApplyBefore_fold ys m')"
  by (induction xs arbitrary: m) (auto split: prod.splits res.splits)







subsection \<open>Evaluation facts\<close>

lemmas pipeline_defs =
  ApplyBeforeIfExists_def call_Before_def CORE_FUNC_def has_generic_after_impl_def
  after_of_First_value_def call_After_value_def after_of_First_void_def call_After_void_def

lemmas example_defs =
  MetricsLayer_def LoggingLayer_def ValidationLayer_def ScaleLayer_def OffsetLayer_def
  CounterLayer_def GuardLayer_def TraceLayer_def Add_def Divide_def Dummy_def Touch_def Reject_def
  usage_start_def counter_start_def no_hook_def no_After_def

lemmas store_example_defs =
  TestState_init_def observer1_def observer2_def observed_store_def quiet_world_def
  observed_registry_def

lemmas log_example_defs =
  log_first_def log_second_def logged_store_def silent_world_def addObserver_def


subsection \<open>Runs of the example pipelines\<close>






subsection \<open>Faults\<close>






subsection \<open>The empty layer list\<close>

lemma Exec_value_empty:
  "Exec_value [] f m =
     (case f (args m) (user m) of
        (Ret v, a', u') \<Rightarrow>
          (Value v, m\<lparr>args := a', user := u', calls := calls m @ [CoreCall (args m)]\<rparr>)
      | (Throw e, a', u') \<Rightarrow>
          (Exception e, m\<lparr>args := a', user := u', calls := calls m @ [CoreCall (args m)]\<rparr>))"
  by (simp add: CORE_FUNC_def split: prod.splits res.splits)

lemma Exec_void_empty:
  "Exec_void [] f m =
     (case CORE_FUNC f m of
        (Throw e, m0) \<Rightarrow> (Exception e, m0)
      | (Ret _, m0) \<Rightarrow>
          (case CORE_FUNC f m0 of
             (Throw e, m2) \<Rightarrow> (Exception e, m2)
           | (Ret _, m2) \<Rightarrow> (NoMatchingFunction, m2)))"
  by (simp add: Exec_void_def split: prod.splits res.splits)

text \<open>
  Claim C3. With an empty layer list \<open>Exec\<close> is to invoke the wrapped function exactly once
  and hand back its result. For a value-returning operation that is what
  \<open>Exec_value_empty\<close> shows. For a void operation the first block lacks the \<open>return\<close>:
  the function is called, control falls through, the function is called a second time,
  and the call of \<open>ApplyAfterIfExists\<close> with an empty layer pack that follows has no
  overload to go to. Evaluated here for \<open>Strata<>::Exec<DummyOp>(Touch, 42)\<close>.
\<close>

theorem Exec_void_empty_runs_function_twice:
  "Exec_void [] Touch (counter_start 42) =
     (NoMatchingFunction,
      \<lparr>args = 42, user = \<lparr>cvalue = 0, history = [''Function called'', ''Function called'']\<rparr>,
       calls = [CoreCall 42, CoreCall 42]\<rparr>)"
  by (simp add: Exec_void_def pipeline_defs example_defs)

subsection \<open>Both after-phases as chains; layers without hooks\<close>

lemma after_chain_void_append:
  "after_chain_void (xs @ ys) m =
     (case after_chain_void xs m of
        (Throw e, m') \<Rightarrow> (Throw e, m')
      | (Ret _, m') \<Rightarrow> after_chain_void ys m')"
  by (induction xs arbitrary: m) (auto split: prod.splits res.splits)

lemma after_chain_void_single: "after_chain_void [L] m = after_of_First_void L m"
  by (auto split: prod.splits res.splits)

lemma ApplyAfterIfExists_void_chain:
  "ApplyAfterIfExists_void First Rest m = after_chain_void (rev (First # Rest)) m"
proof (induction First Rest m rule: ApplyAfterIfExists_void.induct)
  case (1 First m)
  then show ?case by (auto split: prod.splits res.splits)
next
  case (2 First R Rs m)
  have "after_chain_void (rev (First # R # Rs)) m =
          (case after_chain_void (rev (R # Rs)) m of
             (Throw e, m') \<Rightarrow> (Throw e, m')
           | (Ret _, m') \<Rightarrow> after_chain_void [First] m')"
    using after_chain_void_append[of "rev (R # Rs)" "[First]" m] by simp
  with 2 show ?case
    by (simp add: after_chain_void_single split: prod.splits res.splits)
qed

lemma Exec_value_chain:
  "Exec_value Layers f m =
     (case ApplyBefore_fold Layers m of
        (Throw e, m1) \<Rightarrow> (Exception e, m1)
      | (Ret _, m1) \<Rightarrow>
          (case CORE_FUNC f m1 of
             (Throw e, m2) \<Rightarrow> (Exception e, m2)
           | (Ret result, m2) \<Rightarrow>
               (case after_chain (rev Layers) result m2 of
                  (Throw e, _, m3) \<Rightarrow> (Exception e, m3)
                | (Ret _, result', m3) \<Rightarrow> (Value result', m3))))"
proof (cases Layers)
  case Nil
  then show ?thesis by (simp split: prod.splits res.splits)
next
  case (Cons First Rest)
  show ?thesis
    unfolding Cons Exec_value.simps ApplyAfterIfExists_value_chain ..
qed

lemma Exec_void_chain:
  "Layers \<noteq> [] \<Longrightarrow>
   Exec_void Layers f m =
     (case ApplyBefore_fold Layers m of
        (Throw e, m1) \<Rightarrow> (Exception e, m1)
      | (Ret _, m1) \<Rightarrow>
          (case CORE_FUNC f m1 of
             (Throw e, m2) \<Rightarrow> (Exception e, m2)
           | (Ret _, m2) \<Rightarrow>
               (case after_chain_void (rev Layers) m2 of
                  (Throw e, m3) \<Rightarrow> (Exception e, m3)
                | (Ret _, m3) \<Rightarrow> (Value (), m3))))"
proof -
  assume "Layers \<noteq> []"
  then obtain First Rest where L: "Layers = First # Rest" by (cases Layers) auto
  show ?thesis
    unfolding L Exec_void_def ApplyAfterIfExists_void_chain list.case by simp
qed

lemma ApplyBeforeIfExists_absent:
  "\<not> resolves_before L \<Longrightarrow> ApplyBeforeIfExists L m = (Ret (), m)"
  by (simp add: ApplyBeforeIfExists_def resolves_before_def)

lemma after_of_First_value_absent:
  "\<not> resolves_after NonVoid L \<Longrightarrow> after_of_First_value L r m = (Ret (), r, m)"
  by (simp add: after_of_First_value_def resolves_after_def)

lemma after_of_First_void_absent:
  "\<not> resolves_after Void L \<Longrightarrow> after_of_First_void L m = (Ret (), m)"
  by (simp add: after_of_First_void_def resolves_after_def)

lemma ApplyBefore_fold_skip:
  assumes "\<not> resolves_before L"
  shows "ApplyBefore_fold (pre @ L # post) m = ApplyBefore_fold (pre @ post) m"
  using assms
  by (simp add: ApplyBefore_fold_append[of pre] ApplyBeforeIfExists_absent
           split: prod.splits res.splits)

lemma after_chain_skip:
  assumes "\<not> resolves_after NonVoid L"
  shows "after_chain (rev (pre @ L # post)) r m = after_chain (rev (pre @ post)) r m"
  using assms
  by (simp add: after_chain_append[of "rev post"] after_chain_append[of "[L]"]
           after_of_First_value_absent split: prod.splits res.splits)

lemma after_chain_void_skip:
  assumes "\<not> resolves_after Void L"
  shows "after_chain_void (rev (pre @ L # post)) m = after_chain_void (rev (pre @ post)) m"
  using assms
  by (simp add: after_chain_void_append[of "rev post"] after_chain_void_append[of "[L]"]
           after_of_First_void_absent split: prod.splits res.splits)

lemma Exec_value_skip:
  assumes "\<not> resolves_before L" "\<not> resolves_after NonVoid L"
  shows "Exec_value (pre @ L # post) f m = Exec_value (pre @ post) f m"
  by (simp only: Exec_value_chain[of "pre @ L # post"] Exec_value_chain[of "pre @ post"]
        ApplyBefore_fold_skip[OF assms(1)] after_chain_skip[OF assms(2)])

lemma Exec_void_skip:
  assumes "\<not> resolves_before L" "\<not> resolves_after Void L" "pre @ post \<noteq> []"
  shows "Exec_void (pre @ L # post) f m = Exec_void (pre @ post) f m"
proof -
  have ne: "pre @ L # post \<noteq> []" by simp
  show ?thesis
    by (simp only: Exec_void_chain[OF assms(3)] Exec_void_chain[OF ne]
          ApplyBefore_fold_skip[OF assms(1)] after_chain_void_skip[OF assms(2)])
qed


subsection \<open>Hook resolution\<close>

text \<open>
  The \<open>if constexpr\<close> chains taken by themselves: the specific branch first, the generic
  branch second, otherwise nothing is called and the state is untouched. For the after-hook
  of a void operation the generic branch is never taken.
\<close>

lemma hook_dispatch:
  "(has_specific_before_impl L \<longrightarrow> ApplyBeforeIfExists L m = call_Before Specific L m)
   \<and> (\<not> has_specific_before_impl L \<and> has_generic_before_impl L
        \<longrightarrow> ApplyBeforeIfExists L m = call_Before Generic L m)
   \<and> (\<not> has_specific_before_impl L \<and> \<not> has_generic_before_impl L
        \<longrightarrow> ApplyBeforeIfExists L m = (Ret (), m))
   \<and> (has_specific_after_impl A \<longrightarrow> after_of_First_value A r m = call_After_value Specific A r m)
   \<and> (\<not> has_specific_after_impl A \<and> Impl_void_After_invocable A
        \<longrightarrow> after_of_First_value A r m = call_After_value Generic A r m)
   \<and> (\<not> has_specific_after_impl A \<and> \<not> Impl_void_After_invocable A
        \<longrightarrow> after_of_First_value A r m = (Ret (), r, m))
   \<and> (has_specific_after_impl V \<longrightarrow> after_of_First_void V n = call_After_void Specific V n)
   \<and> (\<not> has_specific_after_impl V \<longrightarrow> after_of_First_void V n = (Ret (), n))"
  by (simp add: ApplyBeforeIfExists_def after_of_First_value_def after_of_First_void_def
                has_generic_after_impl_def)

lemma run_rewrite_ok:
  "Exec_value [ScaleLayer, OffsetLayer] Add (usage_start (5, 3)) =
     (Value 18,
      \<lparr>args = (5, 3), user = \<lparr>operationCount = 0, Log = []\<rparr>,
       calls = [CoreCall (5, 3), AfterCall ''OffsetLayer'' Generic (Some 8) (5, 3),
                AfterCall ''ScaleLayer'' Specific (Some 9) (5, 3)]\<rparr>)"
  by (simp add: pipeline_defs example_defs)

text \<open>
  Claim C4. Resolution is to be: the operation-specific hook if the layer has one, else the
  generic hook if the layer has one, else nothing, for before and after alike. The
  function template \<open>After\<close> of \<open>TraceLayer\<close> is a generic after-hook that accepts the
  argument of the void operation \<open>DummyOp\<close>, and the layer has no specific one; yet
  \<open>Strata<TraceLayer>::Exec<DummyOp>(Dummy, 42)\<close> calls the function only and never the hook,
  because the void overload of \<open>ApplyAfterIfExists\<close> guards the call with
  \<open>has_generic_after_impl<First, void, Args...>\<close>, which probes for an \<open>After\<close> taking a
  \<open>void&\<close>.
\<close>

theorem generic_after_hook_of_void_operation_not_called:
  "Impl_void_After_invocable TraceLayer
   \<and> Exec_void [TraceLayer] Dummy (counter_start 42) =
       (Value (), \<lparr>args = 42, user = \<lparr>cvalue = 0, history = []\<rparr>, calls = [CoreCall 42]\<rparr>)"
  by (simp add: Exec_void_def pipeline_defs example_defs)

subsection \<open>What the after-hooks are passed\<close>

lemma results_passed_append:
  "results_passed (xs @ ys) = results_passed xs @ results_passed ys"
  by (induction xs rule: results_passed.induct) simp_all

lemma call_Before_passes:
  "results_passed (calls (snd (call_Before how L m))) = results_passed (calls m)"
  by (simp add: call_Before_def results_passed_append split: prod.splits)

lemma ApplyBeforeIfExists_passes:
  "results_passed (calls (snd (ApplyBeforeIfExists L m))) = results_passed (calls m)"
  by (simp add: ApplyBeforeIfExists_def call_Before_passes)

lemma ApplyBefore_fold_passes:
  "results_passed (calls (snd (ApplyBefore_fold Ls m))) = results_passed (calls m)"
proof (induction Ls arbitrary: m)
  case Nil
  then show ?case by simp
next
  case (Cons L Ls)
  obtain c m1 where s: "ApplyBeforeIfExists L m = (c, m1)" by (cases "ApplyBeforeIfExists L m")
  have p: "results_passed (calls m1) = results_passed (calls m)"
    using ApplyBeforeIfExists_passes[of L m] s by simp
  show ?case
  proof (cases c)
    case (Ret u)
    with s Cons.IH[of m1] p show ?thesis by simp
  next
    case (Throw e)
    with s p show ?thesis by simp
  qed
qed

lemma CORE_FUNC_passes:
  "results_passed (calls (snd (CORE_FUNC f m))) = results_passed (calls m)"
  by (simp add: CORE_FUNC_def results_passed_append split: prod.splits)

lemma after_of_First_void_passes:
  "\<exists>k. results_passed (calls (snd (after_of_First_void L m))) = results_passed (calls m) @ replicate k None"
proof (cases "has_specific_after_impl L")
  case True
  then have "results_passed (calls (snd (after_of_First_void L m))) = results_passed (calls m) @ replicate 1 None"
    by (simp add: after_of_First_void_def call_After_void_def results_passed_append split: prod.splits)
  then show ?thesis by blast
next
  case False
  then have "results_passed (calls (snd (after_of_First_void L m))) = results_passed (calls m) @ replicate 0 None"
    by (simp add: after_of_First_void_def has_generic_after_impl_def)
  then show ?thesis by blast
qed

lemma after_chain_void_passes:
  "\<exists>k. results_passed (calls (snd (after_chain_void Ls m))) = results_passed (calls m) @ replicate k None"
proof (induction Ls arbitrary: m)
  case Nil
  have "results_passed (calls (snd (after_chain_void [] m))) = results_passed (calls m) @ replicate 0 None"
    by simp
  then show ?case by blast
next
  case (Cons L Ls)
  obtain c m1 where s: "after_of_First_void L m = (c, m1)" by (cases "after_of_First_void L m")
  obtain k where k: "results_passed (calls m1) = results_passed (calls m) @ replicate k None"
    using after_of_First_void_passes[of L m] s by auto
  show ?case
  proof (cases c)
    case (Ret u)
    obtain j where "results_passed (calls (snd (after_chain_void Ls m1))) = results_passed (calls m1) @ replicate j None"
      using Cons.IH[of m1] by blast
    with s Ret k have "results_passed (calls (snd (after_chain_void (L # Ls) m))) =
        results_passed (calls m) @ replicate (k + j) None"
      by (simp add: replicate_add)
    then show ?thesis by blast
  next
    case (Throw e)
    with s k show ?thesis by auto
  qed
qed


lemma Exec_void_passes:
  "\<exists>k. results_passed (calls (snd (Exec_void Layers g n))) = results_passed (calls n) @ replicate k None"
proof (cases "Layers = []")
  case True
  obtain c0 n0 where a: "CORE_FUNC g n = (c0, n0)" by (cases "CORE_FUNC g n")
  obtain c2 n2 where b: "CORE_FUNC g n0 = (c2, n2)" by (cases "CORE_FUNC g n0")
  have p0: "results_passed (calls n0) = results_passed (calls n)"
    using CORE_FUNC_passes[of g n] a by simp
  have p2: "results_passed (calls n2) = results_passed (calls n0)"
    using CORE_FUNC_passes[of g n0] b by simp
  have "results_passed (calls (snd (Exec_void [] g n))) = results_passed (calls n)"
    using a b p0 p2 by (cases c0; cases c2) (simp_all add: Exec_void_empty)
  then have "results_passed (calls (snd (Exec_void Layers g n))) = results_passed (calls n) @ replicate 0 None"
    using True by simp
  then show ?thesis by blast
next
  case False
  obtain c1 n1 where a: "ApplyBefore_fold Layers n = (c1, n1)" by (cases "ApplyBefore_fold Layers n")
  obtain c2 n2 where b: "CORE_FUNC g n1 = (c2, n2)" by (cases "CORE_FUNC g n1")
  obtain c3 n3 where c: "after_chain_void (rev Layers) n2 = (c3, n3)"
    by (cases "after_chain_void (rev Layers) n2")
  have p1: "results_passed (calls n1) = results_passed (calls n)"
    using ApplyBefore_fold_passes[of Layers n] a by simp
  have p2: "results_passed (calls n2) = results_passed (calls n1)"
    using CORE_FUNC_passes[of g n1] b by simp
  obtain k where p3: "results_passed (calls n3) = results_passed (calls n2) @ replicate k None"
    using after_chain_void_passes[of "rev Layers" n2] c by auto
  have z: "results_passed (calls n) = results_passed (calls n) @ replicate 0 None" by simp
  show ?thesis
  proof (cases c1)
    case (Throw e)
    with a p1 have "results_passed (calls (snd (Exec_void Layers g n))) = results_passed (calls n) @ replicate 0 None"
      by (simp add: Exec_void_chain[OF False])
    then show ?thesis by blast
  next
    case r1: (Ret u1)
    show ?thesis
    proof (cases c2)
      case (Throw e)
      with a b r1 p1 p2 have "results_passed (calls (snd (Exec_void Layers g n))) = results_passed (calls n) @ replicate 0 None"
        by (simp add: Exec_void_chain[OF False])
      then show ?thesis by blast
    next
      case r2: (Ret u2)
      have "snd (Exec_void Layers g n) = n3"
        using a b c r1 r2 by (cases c3) (simp_all add: Exec_void_chain[OF False])
      then have "results_passed (calls (snd (Exec_void Layers g n))) = results_passed (calls n) @ replicate k None"
        using p1 p2 p3 by simp
      then show ?thesis by blast
    qed
  qed
qed

lemma after_of_First_value_hooks:
  assumes "after_of_First_value L r m = (c, r', m')"
  shows "if resolves_after NonVoid L
         then After L r (args m) (user m) = (c, r', args m', user m')
              \<and> results_passed (calls m') = results_passed (calls m) @ [Some r]
         else c = Ret () \<and> r' = r \<and> m' = m"
  using assms
  by (auto simp: after_of_First_value_def call_After_value_def resolves_after_def
                 results_passed_append split: if_splits prod.splits)

lemma after_chain_hooks:
  "after_chain Ls r m = (c, r', m')
     \<Longrightarrow> hooks_after Ls r (args m) (user m) = (c, r', args m', user m')
         \<and> results_passed (calls m') =
             results_passed (calls m) @ map Some (results_seen Ls r (args m) (user m))"
proof (induction Ls arbitrary: r m)
  case Nil
  then show ?case by simp
next
  case (Cons L Ls)
  obtain c1 r1 m1 where s: "after_of_First_value L r m = (c1, r1, m1)"
    by (cases "after_of_First_value L r m") auto
  note h = after_of_First_value_hooks[OF s]
  show ?case
  proof (cases c1)
    case (Throw e)
    with s Cons.prems have e: "c = Throw e" "r' = r1" "m' = m1" by simp_all
    from h Throw have res: "resolves_after NonVoid L" by (auto split: if_splits)
    with h have a: "After L r (args m) (user m) = (c1, r1, args m1, user m1)"
      and p: "results_passed (calls m1) = results_passed (calls m) @ [Some r]" by simp_all
    show ?thesis using res a p e Throw by simp
  next
    case (Ret u)
    with s Cons.prems have t: "after_chain Ls r1 m1 = (c, r', m')" by simp
    note ih = Cons.IH[OF t]
    show ?thesis
    proof (cases "resolves_after NonVoid L")
      case True
      with h have a: "After L r (args m) (user m) = (c1, r1, args m1, user m1)"
        and p: "results_passed (calls m1) = results_passed (calls m) @ [Some r]" by simp_all
      show ?thesis using True a p ih Ret by simp
    next
      case False
      with h have "r1 = r" "m1 = m" by simp_all
      with False ih show ?thesis by simp
    qed
  qed
qed

lemma after_of_First_void_hooks:
  assumes "after_of_First_void L m = (c, m')"
  shows "if resolves_after Void L
         then After L (args m) (user m) = (c, args m', user m')
         else c = Ret () \<and> m' = m"
  using assms
  by (auto simp: after_of_First_void_def call_After_void_def resolves_after_def
           split: if_splits prod.splits)

lemma after_chain_void_hooks:
  "after_chain_void Ls m = (c, m')
     \<Longrightarrow> hooks_after_void Ls (args m) (user m) = (c, args m', user m')"
proof (induction Ls arbitrary: m)
  case Nil
  then show ?case by simp
next
  case (Cons L Ls)
  obtain c1 m1 where s: "after_of_First_void L m = (c1, m1)"
    by (cases "after_of_First_void L m") auto
  note h = after_of_First_void_hooks[OF s]
  show ?case
  proof (cases c1)
    case (Throw e)
    with s Cons.prems have e: "c = Throw e" "m' = m1" by simp_all
    from h Throw have res: "resolves_after Void L" by (auto split: if_splits)
    with h have a: "After L (args m) (user m) = (c1, args m1, user m1)" by simp
    show ?thesis using res a e Throw by simp
  next
    case (Ret u)
    with s Cons.prems have t: "after_chain_void Ls m1 = (c, m')" by simp
    note ih = Cons.IH[OF t]
    show ?thesis
    proof (cases "resolves_after Void L")
      case True
      with h have a: "After L (args m) (user m) = (c1, args m1, user m1)" by simp
      show ?thesis using True a ih Ret by simp
    next
      case False
      with h have "m1 = m" by simp
      with False ih show ?thesis by simp
    qed
  qed
qed


lemma Exec_value_hooks:
  assumes b: "ApplyBefore_fold Layers m = (Ret (), m1)" and c: "CORE_FUNC f m1 = (Ret result, m2)"
  shows "(fst (Exec_value Layers f m), args (snd (Exec_value Layers f m)),
          user (snd (Exec_value Layers f m))) =
           (case hooks_after (rev Layers) result (args m2) (user m2) of
              (Throw e, r', a', u') \<Rightarrow> (Exception e, a', u')
            | (Ret _, r', a', u') \<Rightarrow> (Value r', a', u'))
         \<and> results_passed (calls (snd (Exec_value Layers f m))) =
             results_passed (calls m) @ map Some (results_seen (rev Layers) result (args m2) (user m2))"
proof -
  obtain c3 r3 m3 where a: "after_chain (rev Layers) result m2 = (c3, r3, m3)"
    by (cases "after_chain (rev Layers) result m2") auto
  note h = after_chain_hooks[OF a]
  have p1: "results_passed (calls m1) = results_passed (calls m)"
    using ApplyBefore_fold_passes[of Layers m] b by simp
  have p2: "results_passed (calls m2) = results_passed (calls m1)"
    using CORE_FUNC_passes[of f m1] c by simp
  have x: "Exec_value Layers f m =
             (case c3 of Throw e \<Rightarrow> (Exception e, m3) | Ret _ \<Rightarrow> (Value r3, m3))"
    by (simp add: Exec_value_chain[of Layers f m] a b c split: res.splits)
  show ?thesis
    using h p1 p2 by (cases c3) (simp_all add: x)
qed

lemma Exec_void_hooks:
  assumes ne: "Layers \<noteq> []"
    and b: "ApplyBefore_fold Layers m = (Ret (), m1)" and c: "CORE_FUNC f m1 = (Ret (), m2)"
  shows "(fst (Exec_void Layers f m), args (snd (Exec_void Layers f m)),
          user (snd (Exec_void Layers f m))) =
           (case hooks_after_void (rev Layers) (args m2) (user m2) of
              (Throw e, a', u') \<Rightarrow> (Exception e, a', u')
            | (Ret _, a', u') \<Rightarrow> (Value (), a', u'))"
proof -
  obtain c3 m3 where a: "after_chain_void (rev Layers) m2 = (c3, m3)"
    by (cases "after_chain_void (rev Layers) m2") auto
  note h = after_chain_void_hooks[OF a]
  have x: "Exec_void Layers f m =
             (case c3 of Throw e \<Rightarrow> (Exception e, m3) | Ret _ \<Rightarrow> (Value (), m3))"
    by (simp add: Exec_void_chain[OF ne] a b c split: res.splits)
  show ?thesis
    using h by (cases c3) (simp_all add: x)
qed

text \<open>
  Claim C5. For a value-returning operation, once the before-hooks and the function have
  returned, what \<open>Exec\<close> returns and the state it leaves are those of the after-hooks
  themselves run over the reversed layer list, each hook being handed the result object
  as the hook invoked before it left it (the hook of \<open>Ln\<close> the value the function
  returned): \<open>Exec\<close> returns the value the last hook left, and the result values the
  recorded calls were handed are the values seen along that chain. For a void operation
  the after-hooks are run, in the same order, on the arguments only, and no call \<open>Exec\<close>
  records carries a result object.
\<close>

theorem after_hooks_share_result:
  "(ApplyBefore_fold Layers m = (Ret (), m1) \<and> CORE_FUNC f m1 = (Ret result, m2)
      \<longrightarrow> (fst (Exec_value Layers f m), args (snd (Exec_value Layers f m)),
           user (snd (Exec_value Layers f m))) =
            (case hooks_after (rev Layers) result (args m2) (user m2) of
               (Throw e, r', a', u') \<Rightarrow> (Exception e, a', u')
             | (Ret _, r', a', u') \<Rightarrow> (Value r', a', u'))
          \<and> results_passed (calls (snd (Exec_value Layers f m))) =
              results_passed (calls m) @ map Some (results_seen (rev Layers) result (args m2) (user m2)))
   \<and> (VLayers \<noteq> [] \<and> ApplyBefore_fold VLayers n = (Ret (), n1) \<and> CORE_FUNC g n1 = (Ret (), n2)
      \<longrightarrow> (fst (Exec_void VLayers g n), args (snd (Exec_void VLayers g n)),
           user (snd (Exec_void VLayers g n))) =
            (case hooks_after_void (rev VLayers) (args n2) (user n2) of
               (Throw e, a', u') \<Rightarrow> (Exception e, a', u')
             | (Ret _, a', u') \<Rightarrow> (Value (), a', u')))
   \<and> (\<exists>k. results_passed (calls (snd (Exec_void VLayers g n)))
            = results_passed (calls n) @ replicate k None)"
proof (intro conjI impI)
  assume h: "ApplyBefore_fold Layers m = (Ret (), m1) \<and> CORE_FUNC f m1 = (Ret result, m2)"
  note r = Exec_value_hooks[OF h[THEN conjunct1] h[THEN conjunct2]]
  show "(fst (Exec_value Layers f m), args (snd (Exec_value Layers f m)),
           user (snd (Exec_value Layers f m))) =
            (case hooks_after (rev Layers) result (args m2) (user m2) of
               (Throw e, r', a', u') \<Rightarrow> (Exception e, a', u')
             | (Ret _, r', a', u') \<Rightarrow> (Value r', a', u'))"
    by (rule r[THEN conjunct1])
  show "results_passed (calls (snd (Exec_value Layers f m))) =
              results_passed (calls m) @ map Some (results_seen (rev Layers) result (args m2) (user m2))"
    by (rule r[THEN conjunct2])
next
  assume h: "VLayers \<noteq> [] \<and> ApplyBefore_fold VLayers n = (Ret (), n1) \<and> CORE_FUNC g n1 = (Ret (), n2)"
  show "(fst (Exec_void VLayers g n), args (snd (Exec_void VLayers g n)),
           user (snd (Exec_void VLayers g n))) =
            (case hooks_after_void (rev VLayers) (args n2) (user n2) of
               (Throw e, a', u') \<Rightarrow> (Exception e, a', u')
             | (Ret _, a', u') \<Rightarrow> (Value (), a', u'))"
    by (rule Exec_void_hooks[OF h[THEN conjunct1] h[THEN conjunct2, THEN conjunct1]
                                h[THEN conjunct2, THEN conjunct2]])
next
  show "\<exists>k. results_passed (calls (snd (Exec_void VLayers g n)))
            = results_passed (calls n) @ replicate k None"
    by (rule Exec_void_passes)
qed

theorem after_hooks_share_result_witness:
  "ApplyBefore_fold [ScaleLayer, OffsetLayer] (usage_start (5, 3)) = (Ret (), usage_start (5, 3))
   \<and> CORE_FUNC Add (usage_start (5, 3)) =
       (Ret 8, \<lparr>args = (5, 3), user = \<lparr>operationCount = 0, Log = []\<rparr>, calls = [CoreCall (5, 3)]\<rparr>)
   \<and> results_seen (rev [ScaleLayer, OffsetLayer]) 8 (5, 3) \<lparr>operationCount = 0, Log = []\<rparr> = [8, 9]
   \<and> hooks_after (rev [ScaleLayer, OffsetLayer]) 8 (5, 3) \<lparr>operationCount = 0, Log = []\<rparr>
       = (Ret (), 18, (5, 3), \<lparr>operationCount = 0, Log = []\<rparr>)
   \<and> fst (Exec_value [ScaleLayer, OffsetLayer] Add (usage_start (5, 3))) = Value 18
   \<and> results_passed (calls (snd (Exec_value [ScaleLayer, OffsetLayer] Add (usage_start (5, 3)))))
       = [Some 8, Some 9]
   \<and> [CounterLayer, GuardLayer] \<noteq> []
   \<and> ApplyBefore_fold [CounterLayer, GuardLayer] (counter_start 42 :: (string, int, unit, CounterState) machine)
       = (Ret (), \<lparr>args = 42, user = \<lparr>cvalue = 1, history = [''Before called'']\<rparr>,
                   calls = [BeforeCall ''CounterLayer'' Specific 42, BeforeCall ''GuardLayer'' Specific 42]\<rparr>)
   \<and> CORE_FUNC Dummy
         \<lparr>args = 42, user = \<lparr>cvalue = 1, history = [''Before called'']\<rparr>,
          calls = [BeforeCall ''CounterLayer'' Specific 42,
                   BeforeCall ''GuardLayer'' Specific 42 :: (string, int, unit) call]\<rparr>
       = (Ret (), \<lparr>args = 42, user = \<lparr>cvalue = 1, history = [''Before called'']\<rparr>,
                   calls = [BeforeCall ''CounterLayer'' Specific 42, BeforeCall ''GuardLayer'' Specific 42,
                            CoreCall 42]\<rparr>)
   \<and> (fst (Exec_void [CounterLayer, GuardLayer] Dummy
              (counter_start 42 :: (string, int, unit, CounterState) machine)),
        args (snd (Exec_void [CounterLayer, GuardLayer] Dummy
              (counter_start 42 :: (string, int, unit, CounterState) machine))),
        user (snd (Exec_void [CounterLayer, GuardLayer] Dummy
              (counter_start 42 :: (string, int, unit, CounterState) machine))))
       = (Value (), 42, \<lparr>cvalue = 1, history = [''Before called'', ''After called'']\<rparr>)"
proof -
  let ?m2 = "\<lparr>args = (5, 3), user = \<lparr>operationCount = 0, Log = []\<rparr>,
              calls = [CoreCall (5, 3)]\<rparr> :: (string, int \<times> int, int, usage_state) machine"
  let ?n1 = "\<lparr>args = 42, user = \<lparr>cvalue = 1, history = [''Before called'']\<rparr>,
              calls = [BeforeCall ''CounterLayer'' Specific 42, BeforeCall ''GuardLayer'' Specific 42]\<rparr>
             :: (string, int, unit, CounterState) machine"
  let ?n2 = "\<lparr>args = 42, user = \<lparr>cvalue = 1, history = [''Before called'']\<rparr>,
              calls = [BeforeCall ''CounterLayer'' Specific 42, BeforeCall ''GuardLayer'' Specific 42,
                       CoreCall 42]\<rparr> :: (string, int, unit, CounterState) machine"
  have h1: "ApplyBefore_fold [ScaleLayer, OffsetLayer] (usage_start (5, 3)) = (Ret (), usage_start (5, 3))"
    by (simp add: pipeline_defs example_defs)
  have h2: "CORE_FUNC Add (usage_start (5, 3)) = (Ret 8, ?m2)"
    by (simp add: pipeline_defs example_defs)
  have s: "results_seen (rev [ScaleLayer, OffsetLayer]) 8 (5, 3) \<lparr>operationCount = 0, Log = []\<rparr> = [8, 9]"
    by (simp add: resolves_after_def has_generic_after_impl_def example_defs)
  have k: "hooks_after (rev [ScaleLayer, OffsetLayer]) 8 (5, 3) \<lparr>operationCount = 0, Log = []\<rparr>
       = (Ret (), 18, (5, 3), \<lparr>operationCount = 0, Log = []\<rparr>)"
    by (simp add: resolves_after_def has_generic_after_impl_def example_defs)
  have ne: "[CounterLayer, GuardLayer] \<noteq> []" by simp
  have h3: "ApplyBefore_fold [CounterLayer, GuardLayer]
              (counter_start 42 :: (string, int, unit, CounterState) machine) = (Ret (), ?n1)"
    by (simp add: pipeline_defs example_defs)
  have h4: "CORE_FUNC Dummy ?n1 = (Ret (), ?n2)"
    by (simp add: pipeline_defs example_defs)
  have kv: "hooks_after_void (rev [CounterLayer, GuardLayer]) 42 \<lparr>cvalue = 1, history = [''Before called'']\<rparr>
       = (Ret (), 42, \<lparr>cvalue = 1, history = [''Before called'', ''After called'']\<rparr>)"
    by (simp add: resolves_after_def has_generic_after_impl_def example_defs)
  have a2: "args ?m2 = (5, 3)" "user ?m2 = \<lparr>operationCount = 0, Log = []\<rparr>"
           "results_passed (calls (usage_start (5, 3))) = []"
    by (simp_all add: usage_start_def)
  have an: "args ?n2 = 42" "user ?n2 = \<lparr>cvalue = 1, history = [''Before called'']\<rparr>"
    by simp_all
  note T = after_hooks_share_result
    [where Layers = "[ScaleLayer, OffsetLayer]" and f = Add and m = "usage_start (5, 3)"
       and VLayers = "[CounterLayer, GuardLayer]" and g = Dummy and n = "counter_start 42"]
  note c1 = T[THEN conjunct1, THEN mp, OF conjI[OF h1 h2]]
  note c2 = T[THEN conjunct2, THEN conjunct1, THEN mp, OF conjI[OF ne conjI[OF h3 h4]]]
  have t1: "(fst (Exec_value [ScaleLayer, OffsetLayer] Add (usage_start (5, 3))),
             args (snd (Exec_value [ScaleLayer, OffsetLayer] Add (usage_start (5, 3)))),
             user (snd (Exec_value [ScaleLayer, OffsetLayer] Add (usage_start (5, 3)))))
            = (Value 18, (5, 3), \<lparr>operationCount = 0, Log = []\<rparr>)"
    using c1[THEN conjunct1] by (simp only: a2 k prod.case res.case)
  have r1: "fst (Exec_value [ScaleLayer, OffsetLayer] Add (usage_start (5, 3))) = Value 18"
    using t1 by (simp only: prod.inject)
  have r2: "results_passed (calls (snd (Exec_value [ScaleLayer, OffsetLayer] Add (usage_start (5, 3)))))
       = [Some 8, Some 9]"
    using c1[THEN conjunct2] by (simp only: a2 s list.map append.simps)
  have r3: "(fst (Exec_void [CounterLayer, GuardLayer] Dummy
              (counter_start 42 :: (string, int, unit, CounterState) machine)),
        args (snd (Exec_void [CounterLayer, GuardLayer] Dummy
              (counter_start 42 :: (string, int, unit, CounterState) machine))),
        user (snd (Exec_void [CounterLayer, GuardLayer] Dummy
              (counter_start 42 :: (string, int, unit, CounterState) machine))))
       = (Value (), 42, \<lparr>cvalue = 1, history = [''Before called'', ''After called'']\<rparr>)"
    using c2 by (simp only: an kv prod.case res.case)
  show ?thesis
    by (intro conjI) (rule h1 h2 s k r1 r2 ne h3 h4 r3)+
qed


section \<open>Properties of the state store\<close>

lemma notify_from_Ret:
  "notify_from i obs d wd = (Ret u, wd')
     \<Longrightarrow> notified wd' = notified wd @ map (\<lambda>j. (j, d)) [i..<i + length obs]"
proof (induction obs arbitrary: i wd)
  case Nil
  then show ?case by simp
next
  case (Cons ob obs)
  obtain c w' where o: "ob d (outside wd) = (c, w')" by (cases "ob d (outside wd)")
  let ?wd1 = "wd\<lparr>outside := w', notified := notified wd @ [(i, d)]\<rparr>"
  from Cons.prems o obtain u' where "c = Ret u'" and r: "notify_from (Suc i) obs d ?wd1 = (Ret u, wd')"
    by (cases c) auto
  have u: "[i..<i + length (ob # obs)] = i # [Suc i..<Suc i + length obs]"
    by (simp add: upt_conv_Cons del: upt_Suc)
  have "notified ?wd1 = notified wd @ [(i, d)]"
    by simp
  with Cons.IH[OF r] show ?case
    by (simp only: u list.map append_assoc append.simps)
qed

lemma notifyObservers_Ret:
  "notifyObservers st wd = (Ret u, wd')
     \<Longrightarrow> notified wd' = notified wd @ map (\<lambda>j. (j, data st)) [0..<length (observers st)]"
  using notify_from_Ret[of 0 "observers st" "data st" wd u wd'] by (simp add: notifyObservers_def)

lemma notify_from_outside:
  "notify_from i obs d wd = (Ret u, wd') \<Longrightarrow> outside wd' = effect_in_order obs d (outside wd)"
proof (induction obs arbitrary: i wd)
  case Nil
  then show ?case by simp
next
  case (Cons ob obs)
  obtain c w' where o: "ob d (outside wd) = (c, w')" by (cases "ob d (outside wd)")
  let ?wd1 = "wd\<lparr>outside := w', notified := notified wd @ [(i, d)]\<rparr>"
  from Cons.prems o obtain u' where "c = Ret u'" and r: "notify_from (Suc i) obs d ?wd1 = (Ret u, wd')"
    by (cases c) auto
  from Cons.IH[OF r] o show ?case by simp
qed

lemma notifyObservers_outside:
  "notifyObservers st wd = (Ret u, wd')
     \<Longrightarrow> outside wd' = effect_in_order (observers st) (data st) (outside wd)"
  using notify_from_outside[of 0 "observers st" "data st" wd u wd'] by (simp add: notifyObservers_def)

lemma fold_addObserver: "observers (fold addObserver obs st) = observers st @ obs"
  by (induction obs arbitrary: st) (simp_all add: addObserver_def)

text \<open>
  Claim C7. Whenever \<open>write\<close>, \<open>modify\<close> or the exit of an \<open>access\<close> scope completes (no
  observer threw), every registered observer has been called exactly once with the value
  the store holds after the mutation, in the order of registration: what the calls leave
  outside the store is the effect of the observers of \<open>observers_\<close> run first to last on
  that value, and \<open>addObserver\<close> appends, so the list is in the order of registration.
  \<open>read\<close> returns the value and leaves the store, the observers' outside and the record of
  observer calls as they were.
\<close>

theorem observers_notified_once_in_order:
  "(write_data v st wd = (Ret (), st1, wd1)
      \<longrightarrow> data st1 = v
          \<and> notified wd1 = notified wd @ map (\<lambda>i. (i, v)) [0..<length (observers st)]
          \<and> outside wd1 = effect_in_order (observers st) v (outside wd))
   \<and> (modify func st wd = (Ret (), st2, wd2)
      \<longrightarrow> func (data st) = (Ret (), data st2)
          \<and> notified wd2 = notified wd @ map (\<lambda>i. (i, data st2)) [0..<length (observers st)]
          \<and> outside wd2 = effect_in_order (observers st) (data st2) (outside wd))
   \<and> (access scope st wd = (Scope_left c, st3, wd3)
      \<longrightarrow> scope (data st) = (c, data st3)
          \<and> notified wd3 = notified wd @ map (\<lambda>i. (i, data st3)) [0..<length (observers st)]
          \<and> outside wd3 = effect_in_order (observers st) (data st3) (outside wd))
   \<and> read st wd = (data st, st, wd)
   \<and> observers (addObserver ob st) = observers st @ [ob]
   \<and> observers (fold addObserver obs st) = observers st @ obs"
proof (intro conjI impI)
  assume h: "write_data v st wd = (Ret (), st1, wd1)"
  then have s: "st1 = st\<lparr>data := v\<rparr>" and n: "notifyObservers (st\<lparr>data := v\<rparr>) wd = (Ret (), wd1)"
    by (auto simp: write_data_def split: prod.splits)
  show "data st1 = v" using s by simp
  show "notified wd1 = notified wd @ map (\<lambda>i. (i, v)) [0..<length (observers st)]"
    using notifyObservers_Ret[OF n] by simp
  show "outside wd1 = effect_in_order (observers st) v (outside wd)"
    using notifyObservers_outside[OF n] by simp
next
  assume h: "modify func st wd = (Ret (), st2, wd2)"
  then obtain d' where f: "func (data st) = (Ret (), d')" and s: "st2 = st\<lparr>data := d'\<rparr>"
      and n: "notifyObservers (st\<lparr>data := d'\<rparr>) wd = (Ret (), wd2)"
    by (auto simp: modify_def split: prod.splits res.splits)
  show "func (data st) = (Ret (), data st2)" using f s by simp
  show "notified wd2 = notified wd @ map (\<lambda>i. (i, data st2)) [0..<length (observers st)]"
    using notifyObservers_Ret[OF n] s by simp
  show "outside wd2 = effect_in_order (observers st) (data st2) (outside wd)"
    using notifyObservers_outside[OF n] s by simp
next
  assume h: "access scope st wd = (Scope_left c, st3, wd3)"
  then obtain d' u where f: "scope (data st) = (c, d')" and s: "st3 = st\<lparr>data := d'\<rparr>"
      and n: "notifyObservers (st\<lparr>data := d'\<rparr>) wd = (Ret u, wd3)"
    by (auto simp: access_def split: prod.splits res.splits)
  show "scope (data st) = (c, data st3)" using f s by simp
  show "notified wd3 = notified wd @ map (\<lambda>i. (i, data st3)) [0..<length (observers st)]"
    using notifyObservers_Ret[OF n] s by simp
  show "outside wd3 = effect_in_order (observers st) (data st3) (outside wd)"
    using notifyObservers_outside[OF n] s by simp
next
  show "read st wd = (data st, st, wd)" by (simp add: read_def)
  show "observers (addObserver ob st) = observers st @ [ob]" by (simp add: addObserver_def)
  show "observers (fold addObserver obs st) = observers st @ obs" by (rule fold_addObserver)
qed

subsection \<open>Runs of the example store\<close>

lemma run_log_write_ok:
  "write_data \<lparr>counter = 20, message = ''Hello''\<rparr> logged_store silent_world =
     (Ret (),
      \<lparr>data = \<lparr>counter = 20, message = ''Hello''\<rparr>, observers = [log_first, log_second]\<rparr>,
      \<lparr>outside = [(''first'', 20), (''second'', 20)],
       notified = [(0, \<lparr>counter = 20, message = ''Hello''\<rparr>), (1, \<lparr>counter = 20, message = ''Hello''\<rparr>)]\<rparr>)"
  by (simp add: write_data_def notifyObservers_def log_example_defs)

lemma run_log_modify_ok:
  "modify (\<lambda>s. (Ret (), s\<lparr>counter := 30\<rparr>)) logged_store silent_world =
     (Ret (),
      \<lparr>data = \<lparr>counter = 30, message = []\<rparr>, observers = [log_first, log_second]\<rparr>,
      \<lparr>outside = [(''first'', 30), (''second'', 30)],
       notified = [(0, \<lparr>counter = 30, message = []\<rparr>), (1, \<lparr>counter = 30, message = []\<rparr>)]\<rparr>)"
  by (simp add: modify_def notifyObservers_def log_example_defs)

lemma run_log_access_ok:
  "access (\<lambda>s. (Ret (), s\<lparr>counter := 10\<rparr>)) logged_store silent_world =
     (Scope_left (Ret ()),
      \<lparr>data = \<lparr>counter = 10, message = []\<rparr>, observers = [log_first, log_second]\<rparr>,
      \<lparr>outside = [(''first'', 10), (''second'', 10)],
       notified = [(0, \<lparr>counter = 10, message = []\<rparr>), (1, \<lparr>counter = 10, message = []\<rparr>)]\<rparr>)"
  by (simp add: access_def notifyObservers_def log_example_defs)


theorem observers_notified_once_in_order_witness:
  "observers logged_store = [log_first, log_second]
   \<and> write_data \<lparr>counter = 20, message = ''Hello''\<rparr> logged_store silent_world =
     (Ret (),
      \<lparr>data = \<lparr>counter = 20, message = ''Hello''\<rparr>, observers = [log_first, log_second]\<rparr>,
      \<lparr>outside = [(''first'', 20), (''second'', 20)],
       notified = [(0, \<lparr>counter = 20, message = ''Hello''\<rparr>), (1, \<lparr>counter = 20, message = ''Hello''\<rparr>)]\<rparr>)
   \<and> modify (\<lambda>s. (Ret (), s\<lparr>counter := 30\<rparr>)) logged_store silent_world =
     (Ret (),
      \<lparr>data = \<lparr>counter = 30, message = []\<rparr>, observers = [log_first, log_second]\<rparr>,
      \<lparr>outside = [(''first'', 30), (''second'', 30)],
       notified = [(0, \<lparr>counter = 30, message = []\<rparr>), (1, \<lparr>counter = 30, message = []\<rparr>)]\<rparr>)
   \<and> access (\<lambda>s. (Ret (), s\<lparr>counter := 10\<rparr>)) logged_store silent_world =
     (Scope_left (Ret ()),
      \<lparr>data = \<lparr>counter = 10, message = []\<rparr>, observers = [log_first, log_second]\<rparr>,
      \<lparr>outside = [(''first'', 10), (''second'', 10)],
       notified = [(0, \<lparr>counter = 10, message = []\<rparr>), (1, \<lparr>counter = 10, message = []\<rparr>)]\<rparr>)
   \<and> effect_in_order (observers logged_store) \<lparr>counter = 20, message = ''Hello''\<rparr> (outside silent_world)
       = [(''first'', 20), (''second'', 20)]
   \<and> effect_in_order (observers logged_store) \<lparr>counter = 30, message = []\<rparr> (outside silent_world)
       = [(''first'', 30), (''second'', 30)]
   \<and> effect_in_order (observers logged_store) \<lparr>counter = 10, message = []\<rparr> (outside silent_world)
       = [(''first'', 10), (''second'', 10)]
   \<and> notified silent_world @ map (\<lambda>i. (i, \<lparr>counter = 20, message = ''Hello''\<rparr>)) [0..<length (observers logged_store)]
       = [(0, \<lparr>counter = 20, message = ''Hello''\<rparr>), (1, \<lparr>counter = 20, message = ''Hello''\<rparr>)]
   \<and> read logged_store silent_world = (\<lparr>counter = 0, message = []\<rparr>, logged_store, silent_world)"
proof -
  note T = observers_notified_once_in_order
    [where st = logged_store and wd = silent_world
       and v = "\<lparr>counter = 20, message = ''Hello''\<rparr>"
       and func = "\<lambda>s. (Ret (), s\<lparr>counter := 30\<rparr>)"
       and scope = "\<lambda>s. (Ret (), s\<lparr>counter := 10\<rparr>)"
       and ob = log_first and obs = "[log_first, log_second]"]
  note c1 = T[THEN conjunct1, THEN mp, OF run_log_write_ok]
  note c2 = T[THEN conjunct2, THEN conjunct1, THEN mp, OF run_log_modify_ok]
  note c3 = T[THEN conjunct2, THEN conjunct2, THEN conjunct1, THEN mp, OF run_log_access_ok]
  note c4 = T[THEN conjunct2, THEN conjunct2, THEN conjunct2, THEN conjunct1]
  have o: "observers logged_store = [log_first, log_second]"
    by (simp add: logged_store_def addObserver_def)
  have d: "data logged_store = \<lparr>counter = 0, message = []\<rparr>"
    by (simp add: logged_store_def addObserver_def)
  have e1: "effect_in_order (observers logged_store) \<lparr>counter = 20, message = ''Hello''\<rparr> (outside silent_world)
       = [(''first'', 20), (''second'', 20)]"
    using c1[THEN conjunct2, THEN conjunct2] by simp
  have e2: "effect_in_order (observers logged_store) \<lparr>counter = 30, message = []\<rparr> (outside silent_world)
       = [(''first'', 30), (''second'', 30)]"
    using c2[THEN conjunct2, THEN conjunct2] by simp
  have e3: "effect_in_order (observers logged_store) \<lparr>counter = 10, message = []\<rparr> (outside silent_world)
       = [(''first'', 10), (''second'', 10)]"
    using c3[THEN conjunct2, THEN conjunct2] by simp
  have n1: "notified silent_world @ map (\<lambda>i. (i, \<lparr>counter = 20, message = ''Hello''\<rparr>)) [0..<length (observers logged_store)]
       = [(0, \<lparr>counter = 20, message = ''Hello''\<rparr>), (1, \<lparr>counter = 20, message = ''Hello''\<rparr>)]"
    using c1[THEN conjunct2, THEN conjunct1] by simp
  show ?thesis
    by (intro conjI) (rule o run_log_write_ok run_log_modify_ok run_log_access_ok e1 e2 e3 n1 c4[unfolded d])+
qed

subsection \<open>The registry and the current context\<close>

lemma registry_ok_empty: "registry_ok empty_registry"
  by (simp add: registry_ok_def empty_registry_def)


lemma registry_ok_clear: "registry_ok reg \<Longrightarrow> registry_ok (clear reg)"
  by (simp add: registry_ok_def clear_def)

lemma registry_ok_removeState: "registry_ok reg \<Longrightarrow> registry_ok (removeState T key reg)"
  unfolding registry_ok_def removeState_def
  by (auto split: option.splits if_splits; blast)

lemma getOrCreateState_allocated:
  "registry_ok reg \<Longrightarrow> fst (getOrCreateState T_init T key reg) < allocated (snd (getOrCreateState T_init T key reg))"
  unfolding registry_ok_def getOrCreateState_def Let_def
  by (auto split: option.splits)










subsection \<open>Access through the wrapper\<close>

lemma through_Some:
  assumes "objects reg (state h) = Some st" "through h member reg wd = Some (x, reg', wd')"
  shows "\<exists>st'. member st wd = (x, st', wd') \<and> objects reg' (state h) = Some st'"
  using assms by (auto simp: through_def split: prod.splits)

text \<open>
  Claim C10. \<open>LayerStateWrapper::operator->\<close> is \<open>state_->access()\<close>. Whatever is done through
  the arrow, when the expression completes every registered observer has been called once,
  in order, with the value the store then holds. In particular a mere read of a field
  returns the field, leaves the store as it was, and still calls every observer.
\<close>

theorem arrow_always_notifies:
  "(objects reg (state h) = Some st
      \<and> Wrapper_arrow h scope reg wd = Some (Scope_left c, reg1, wd1)
      \<longrightarrow> (\<exists>st1. objects reg1 (state h) = Some st1
                \<and> scope (data st) = (c, data st1)
                \<and> notified wd1 = notified wd @ map (\<lambda>i. (i, data st1)) [0..<length (observers st)]))
   \<and> (objects reg (state h) = Some st
      \<and> Wrapper_arrow h (\<lambda>d. (Ret (field d), d)) reg wd = Some (Scope_left c', reg2, wd2)
      \<longrightarrow> c' = Ret (field (data st))
          \<and> objects reg2 (state h) = Some st
          \<and> notified wd2 = notified wd @ map (\<lambda>i. (i, data st)) [0..<length (observers st)])"
proof (intro conjI impI)
  assume h: "objects reg (state h) = Some st
      \<and> Wrapper_arrow h scope reg wd = Some (Scope_left c, reg1, wd1)"
  then obtain st1 where a: "access scope st wd = (Scope_left c, st1, wd1)"
      and o: "objects reg1 (state h) = Some st1"
    using through_Some[of reg h st "access scope" wd "Scope_left c" reg1 wd1]
    by (auto simp: Wrapper_arrow_def)
  from a obtain d' u where f: "scope (data st) = (c, d')" and s: "st1 = st\<lparr>data := d'\<rparr>"
      and n: "notifyObservers (st\<lparr>data := d'\<rparr>) wd = (Ret u, wd1)"
    by (auto simp: access_def split: prod.splits res.splits)
  have "notified wd1 = notified wd @ map (\<lambda>i. (i, data st1)) [0..<length (observers st)]"
    using notifyObservers_Ret[OF n] s by simp
  with o f s show "\<exists>st1. objects reg1 (state h) = Some st1
                \<and> scope (data st) = (c, data st1)
                \<and> notified wd1 = notified wd @ map (\<lambda>i. (i, data st1)) [0..<length (observers st)]"
    by auto
next
  assume h: "objects reg (state h) = Some st
      \<and> Wrapper_arrow h (\<lambda>d. (Ret (field d), d)) reg wd = Some (Scope_left c', reg2, wd2)"
  then obtain st2 where a: "access (\<lambda>d. (Ret (field d), d)) st wd = (Scope_left c', st2, wd2)"
      and o: "objects reg2 (state h) = Some st2"
    using through_Some[of reg h st "access (\<lambda>d. (Ret (field d), d))" wd "Scope_left c'" reg2 wd2]
    by (auto simp: Wrapper_arrow_def)
  have e: "access (\<lambda>d. (Ret (field d), d)) st wd =
             (case notifyObservers st wd of
                (Throw e, wd') \<Rightarrow> (Terminated, st, wd')
              | (Ret _, wd') \<Rightarrow> (Scope_left (Ret (field (data st))), st, wd'))"
    by (simp add: access_def split: prod.splits res.splits)
  obtain r wd' where nn: "notifyObservers st wd = (r, wd')" by (cases "notifyObservers st wd")
  from a e nn obtain u where ru: "r = Ret u"
    by (cases r) simp_all
  have v: "access (\<lambda>d. (Ret (field d), d)) st wd = (Scope_left (Ret (field (data st))), st, wd')"
    by (simp add: e nn ru)
  have eq: "(Scope_left c', st2, wd2) = (Scope_left (Ret (field (data st))), st, wd')"
    by (rule trans[OF a[symmetric] v])
  have c: "c' = Ret (field (data st))" using eq by simp
  have s: "st2 = st" using eq by simp
  have w: "wd' = wd2" using eq by simp
  have n: "notifyObservers st wd = (Ret u, wd2)"
    using nn ru w by simp
  show "c' = Ret (field (data st))" by (rule c)
  show "objects reg2 (state h) = Some st" using o s by simp
  show "notified wd2 = notified wd @ map (\<lambda>i. (i, data st)) [0..<length (observers st)]"
    by (rule notifyObservers_Ret[OF n])
qed

lemma run_arrow_write_ok:
  "Wrapper_arrow \<lparr>state = 0\<rparr> (\<lambda>s. (Ret (), s\<lparr>counter := 10\<rparr>)) observed_registry quiet_world =
     Some (Scope_left (Ret ()),
           observed_registry\<lparr>objects := (objects observed_registry)
              (0 \<mapsto> \<lparr>data = \<lparr>counter = 10, message = []\<rparr>, observers = [observer1, observer2]\<rparr>)\<rparr>,
           \<lparr>outside = ([10], [10]),
            notified = [(0, \<lparr>counter = 10, message = []\<rparr>), (1, \<lparr>counter = 10, message = []\<rparr>)]\<rparr>)"
  by (simp add: Wrapper_arrow_def through_def access_def notifyObservers_def store_example_defs)

lemma run_arrow_read_ok:
  "Wrapper_arrow \<lparr>state = 0\<rparr> (\<lambda>d. (Ret (counter d), d)) observed_registry quiet_world =
     Some (Scope_left (Ret 0),
           observed_registry\<lparr>objects := (objects observed_registry)(0 \<mapsto> observed_store)\<rparr>,
           \<lparr>outside = ([0], [0]),
            notified = [(0, \<lparr>counter = 0, message = []\<rparr>), (1, \<lparr>counter = 0, message = []\<rparr>)]\<rparr>)"
  by (simp add: Wrapper_arrow_def through_def access_def notifyObservers_def store_example_defs)

theorem arrow_always_notifies_witness:
  "objects observed_registry (state \<lparr>state = 0\<rparr>) = Some observed_store
   \<and> Wrapper_arrow \<lparr>state = 0\<rparr> (\<lambda>s. (Ret (), s\<lparr>counter := 10\<rparr>)) observed_registry quiet_world =
     Some (Scope_left (Ret ()),
           observed_registry\<lparr>objects := (objects observed_registry)
              (0 \<mapsto> \<lparr>data = \<lparr>counter = 10, message = []\<rparr>, observers = [observer1, observer2]\<rparr>)\<rparr>,
           \<lparr>outside = ([10], [10]),
            notified = [(0, \<lparr>counter = 10, message = []\<rparr>), (1, \<lparr>counter = 10, message = []\<rparr>)]\<rparr>)
   \<and> Wrapper_arrow \<lparr>state = 0\<rparr> (\<lambda>d. (Ret (counter d), d)) observed_registry quiet_world =
     Some (Scope_left (Ret 0),
           observed_registry\<lparr>objects := (objects observed_registry)(0 \<mapsto> observed_store)\<rparr>,
           \<lparr>outside = ([0], [0]),
            notified = [(0, \<lparr>counter = 0, message = []\<rparr>), (1, \<lparr>counter = 0, message = []\<rparr>)]\<rparr>)
   \<and> objects (observed_registry\<lparr>objects := (objects observed_registry)(0 \<mapsto> observed_store)\<rparr>)
         (state \<lparr>state = 0\<rparr>) = Some observed_store
   \<and> notified \<lparr>outside = ([0::int], [0::int]),
            notified = [(0, \<lparr>counter = 0, message = []\<rparr>), (1, \<lparr>counter = 0, message = []\<rparr>)]\<rparr>
       = notified quiet_world @ map (\<lambda>i. (i, data observed_store)) [0..<length (observers observed_store)]
   \<and> (\<exists>st1. objects (observed_registry\<lparr>objects := (objects observed_registry)
              (0 \<mapsto> \<lparr>data = \<lparr>counter = 10, message = []\<rparr>, observers = [observer1, observer2]\<rparr>)\<rparr>)
                (state \<lparr>state = 0\<rparr>) = Some st1
          \<and> ((Ret (), (data observed_store)\<lparr>counter := 10\<rparr>) :: (string, unit) res \<times> TestState) = (Ret (), data st1)
          \<and> notified \<lparr>outside = ([10::int], [10::int]),
                notified = [(0, \<lparr>counter = 10, message = []\<rparr>), (1, \<lparr>counter = 10, message = []\<rparr>)]\<rparr>
              = notified quiet_world @ map (\<lambda>i. (i, data st1)) [0..<length (observers observed_store)])"
proof -
  have o: "objects observed_registry (state \<lparr>state = 0\<rparr>) = Some observed_store"
    by (simp add: observed_registry_def)
  note T = arrow_always_notifies
    [where reg = observed_registry and h = "\<lparr>state = 0\<rparr>" and st = observed_store
       and wd = quiet_world and scope = "\<lambda>s. (Ret (), s\<lparr>counter := 10\<rparr>)" and field = counter]
  note c1 = T[THEN conjunct1, THEN mp, OF conjI[OF o run_arrow_write_ok]]
  note c2 = T[THEN conjunct2, THEN mp, OF conjI[OF o run_arrow_read_ok]]
  show ?thesis
    by (intro conjI) (rule o run_arrow_write_ok run_arrow_read_ok c1 c2[THEN conjunct2, THEN conjunct1]
                          c2[THEN conjunct2, THEN conjunct2])+
qed

end
